theory Spec2Isabelle
  imports Complex_Main "HOL-Library.Word" "HOL-Library.Multiset"
begin

unbundle bit_operations_syntax

section \<open>Overview\<close>

text \<open>
  A model of the template reconciliation and write-scheduling engine of the Blue Marble
  userscript: the palette lookup of \<open>utils.js\<close>, the tile analysis of
  \<open>templateManager.js\<close>, the paint-cycle controller of \<open>autoPainter.js\<close>, and the
  colour availability and quick-paint scheduling of \<open>apiManager.js\<close>.

  The repository holds two generations of \<open>templateManager.js\<close> and \<open>apiManager.js\<close>.
  The model follows the generation that the entry script wires together (the manager
  and the API manager both receive the \<open>AutoPainter\<close>): tile analysis with the capped
  colour score, and quick paint with just-in-time analysis and weighted selection.
  The older \<open>apiManager.js\<close> takes the first \<open>n\<close> candidates of the sorted queue
  instead, and the older \<open>templateManager.js\<close> adds the colour difference uncapped.

  JavaScript numbers are modelled by integers where the code only counts and by real
  numbers where it divides or takes roots and powers; bytes of image data are 8-bit
  words. Decoding, rasterising, fetching, the random source, the power function of
  the weighted selection, and the timers and user's calls that reach the controller
  are inputs of the model.
\<close>

section \<open>Palette and nearest-colour lookup (utils.js)\<close>

text \<open>
  An RGB triple as the code passes it around (\<open>{r, g, b}\<close> / \<open>[r, g, b]\<close>).
  Components are JavaScript numbers; the lookup only ever subtracts and multiplies
  them, so they are modelled as unbounded integers.
\<close>

type_synonym rgb = "int \<times> int \<times> int"

record paletteEntry =
  name :: string
  rgb :: rgb

datatype error = TypeError | DecodeError

text \<open>\<open>export const colorpalette = [...]\<close>: 64 entries, ids 0..63.\<close>

definition colorpalette :: "paletteEntry list" where
  "colorpalette = map (\<lambda>(n, c). \<lparr>name = n, rgb = c\<rparr>)
  [(''Transparent'', (0, 0, 0)),
   (''Black'', (0, 0, 0)),
   (''Dark Gray'', (60, 60, 60)),
   (''Gray'', (120, 120, 120)),
   (''Light Gray'', (210, 210, 210)),
   (''White'', (255, 255, 255)),
   (''Deep Red'', (96, 0, 24)),
   (''Red'', (237, 28, 36)),
   (''Orange'', (255, 127, 39)),
   (''Gold'', (246, 170, 9)),
   (''Yellow'', (249, 221, 59)),
   (''Light Yellow'', (255, 250, 188)),
   (''Dark Green'', (14, 185, 104)),
   (''Green'', (19, 230, 123)),
   (''Light Green'', (135, 255, 94)),
   (''Dark Teal'', (12, 129, 110)),
   (''Teal'', (16, 174, 166)),
   (''Light Teal'', (19, 225, 190)),
   (''Dark Blue'', (40, 80, 158)),
   (''Blue'', (64, 147, 228)),
   (''Cyan'', (96, 247, 242)),
   (''Indigo'', (107, 80, 246)),
   (''Light Indigo'', (153, 177, 251)),
   (''Dark Purple'', (120, 12, 153)),
   (''Purple'', (170, 56, 185)),
   (''Light Purple'', (224, 159, 249)),
   (''Dark Pink'', (203, 0, 122)),
   (''Pink'', (236, 31, 128)),
   (''Light Pink'', (243, 141, 169)),
   (''Dark Brown'', (104, 70, 52)),
   (''Brown'', (149, 104, 42)),
   (''Beige'', (248, 178, 119)),
   (''Medium Gray'', (170, 170, 170)),
   (''Dark Red'', (165, 14, 30)),
   (''Light Red'', (250, 128, 114)),
   (''Dark Orange'', (228, 92, 26)),
   (''Light Tan'', (214, 181, 148)),
   (''Dark Goldenrod'', (156, 132, 49)),
   (''Goldenrod'', (197, 173, 49)),
   (''Light Goldenrod'', (232, 212, 95)),
   (''Dark Olive'', (74, 107, 58)),
   (''Olive'', (90, 148, 74)),
   (''Light Olive'', (132, 197, 115)),
   (''Dark Cyan'', (15, 121, 159)),
   (''Light Cyan'', (187, 250, 242)),
   (''Light Blue'', (125, 199, 255)),
   (''Dark Indigo'', (77, 49, 184)),
   (''Dark Slate Blue'', (74, 66, 132)),
   (''Slate Blue'', (122, 113, 196)),
   (''Light Slate Blue'', (181, 174, 241)),
   (''Light Brown'', (219, 164, 99)),
   (''Dark Beige'', (209, 128, 81)),
   (''Light Beige'', (255, 197, 165)),
   (''Dark Peach'', (155, 82, 73)),
   (''Peach'', (209, 128, 120)),
   (''Light Peach'', (250, 182, 164)),
   (''Dark Tan'', (123, 99, 82)),
   (''Tan'', (156, 132, 107)),
   (''Dark Slate'', (51, 57, 65)),
   (''Slate'', (109, 117, 141)),
   (''Light Slate'', (179, 185, 209)),
   (''Dark Stone'', (109, 100, 63)),
   (''Stone'', (148, 140, 107)),
   (''Light Stone'', (205, 197, 158))]"

text \<open>
  \<open>let colorpaletteRGB = null\<close> is module state, filled on first use by
  \<open>initializePalettes\<close>: \<open>None\<close> is the initial \<open>null\<close>; an entry of the filled
  table is \<open>None\<close> (JavaScript \<open>null\<close>) for the colour named "Transparent".
  The function returns the table the module holds afterwards.
\<close>

type_synonym paletteCache = "rgb option list option"

definition initializePalettes :: "paletteCache \<Rightarrow> rgb option list" where
  "initializePalettes st =
     (case st of
        None \<Rightarrow> map (\<lambda>color. if name color = ''Transparent'' then None else Some (rgb color)) colorpalette
      | Some table \<Rightarrow> table)"

text \<open>Squared Euclidean distance in raw RGB space, as the loop body computes it.\<close>

fun distanceSq :: "rgb \<Rightarrow> rgb \<Rightarrow> int" where
  "distanceSq (r, g, b) (pr, pg, pb) =
     (let dr = r - pr; dg = g - pg; db = b - pb in dr * dr + dg * dg + db * db)"

text \<open>
  \<open>minDistanceSq\<close> starts at \<open>Infinity\<close>, modelled by \<open>None\<close>;
  \<open>distanceSq < minDistanceSq\<close> is then always true.
\<close>

fun lessThanMin :: "int \<Rightarrow> int option \<Rightarrow> bool" where
  "lessThanMin d None = True"
| "lessThanMin d (Some m) = (d < m)"

text \<open>
  The \<open>forEach((paletteRgb, index) => ...)\<close> loop with its two captured variables
  \<open>(minDistanceSq, closestColorIndex)\<close>. Index 0 is skipped before the entry is
  touched; reading \<open>paletteRgb[0]\<close> of a \<open>null\<close> entry anywhere else throws.
\<close>

fun closestLoop :: "rgb \<Rightarrow> rgb option list \<Rightarrow> nat \<Rightarrow> int option \<times> int \<Rightarrow> error + (int option \<times> int)" where
  "closestLoop c [] index acc = Inr acc"
| "closestLoop c (paletteRgb # rest) index (minDistanceSq, closestColorIndex) =
     (if index = 0 then closestLoop c rest (Suc index) (minDistanceSq, closestColorIndex)
      else case paletteRgb of
             None \<Rightarrow> Inl TypeError
           | Some p \<Rightarrow>
               (if lessThanMin (distanceSq c p) minDistanceSq
                then closestLoop c rest (Suc index) (Some (distanceSq c p), int index)
                else closestLoop c rest (Suc index) (minDistanceSq, closestColorIndex)))"

definition findClosestColorSt :: "paletteCache \<Rightarrow> rgb \<Rightarrow> (error + int) \<times> paletteCache" where
  "findClosestColorSt st c =
     (let table = initializePalettes st in
      (case closestLoop c table 0 (None, -1) of
         Inl e \<Rightarrow> Inl e
       | Inr (minDistanceSq, closestColorIndex) \<Rightarrow> Inr closestColorIndex,
       Some table))"

text \<open>The lookup as seen by a caller on a freshly loaded module.\<close>

definition findClosestColor :: "rgb \<Rightarrow> error + int" where
  "findClosestColor c = fst (findClosestColorSt None c)"

text \<open>The table of a filled module without its slot 0, for reasoning about the loop.\<close>

definition paletteRGBs :: "rgb list" where
  "paletteRGBs = map rgb (tl colorpalette)"

text \<open>
  The last statement of \<open>calculateColorDifference\<close>: \<open>return deltaE * 5000\<close>. The
  value \<open>deltaE\<close> is what \<open>ciede2000(rgbToLab(rgb1), rgbToLab(rgb2))\<close> returned; that
  computation is \<open>deltaE2000\<close> in the next section. The tile analysis takes the
  distance function as an argument, so that what is proved of its tiers holds for
  whatever number the floating-point pipeline yields.
\<close>

definition calculateColorDifference :: "real \<Rightarrow> real" where
  "calculateColorDifference deltaE = deltaE * 5000"
section \<open>Perceptual colour difference (utils.js)\<close>

text \<open>
  The conversion from RGB to CIE-LAB and the CIEDE2000 formula, as \<open>utils.js\<close> writes
  them, over the real numbers: the code's doubles and its \<open>Math.pow\<close>, \<open>Math.sqrt\<close>,
  \<open>Math.atan2\<close>, \<open>Math.sin\<close>, \<open>Math.cos\<close> and \<open>Math.exp\<close> agree with these up to
  rounding. \<open>Math.pow\<close> is \<open>powr\<close> where the code raises a positive number to a
  fractional power, and a power with a natural exponent where the exponent is 2 or 7.
\<close>

definition K_L :: real where "K_L = 1"
definition K_C :: real where "K_C = 1"
definition K_H :: real where "K_H = 1"
definition DEG_TO_RAD :: real where "DEG_TO_RAD = pi / 180"
definition RAD_TO_DEG :: real where "RAD_TO_DEG = 180 / pi"
definition POW25_7 :: real where "POW25_7 = 25 ^ 7"

definition rgbToXyz :: "real \<Rightarrow> real \<Rightarrow> real \<Rightarrow> real \<times> real \<times> real" where
  "rgbToXyz r g b =
     (let r1 = r / 255;
          g1 = g / 255;
          b1 = b / 255;
          r2 = (if r1 > 0.04045 then ((r1 + 0.055) / 1.055) powr 2.4 else r1 / 12.92);
          g2 = (if g1 > 0.04045 then ((g1 + 0.055) / 1.055) powr 2.4 else g1 / 12.92);
          b2 = (if b1 > 0.04045 then ((b1 + 0.055) / 1.055) powr 2.4 else b1 / 12.92);
          r3 = r2 * 100;
          g3 = g2 * 100;
          b3 = b2 * 100
      in (r3 * 0.4124564 + g3 * 0.3575761 + b3 * 0.1804375,
          r3 * 0.2126729 + g3 * 0.7151522 + b3 * 0.0721750,
          r3 * 0.0193339 + g3 * 0.1191920 + b3 * 0.9503041))"

definition xyzToLab :: "real \<Rightarrow> real \<Rightarrow> real \<Rightarrow> real \<times> real \<times> real" where
  "xyzToLab x y z =
     (let refX = 95.047;
          refY = 100.000;
          refZ = 108.883;
          x1 = x / refX;
          y1 = y / refY;
          z1 = z / refZ;
          x2 = (if x1 > 0.008856 then x1 powr (1 / 3) else (7.787 * x1) + (16 / 116));
          y2 = (if y1 > 0.008856 then y1 powr (1 / 3) else (7.787 * y1) + (16 / 116));
          z2 = (if z1 > 0.008856 then z1 powr (1 / 3) else (7.787 * z1) + (16 / 116))
      in ((116 * y2) - 16, 500 * (x2 - y2), 200 * (y2 - z2)))"

definition rgbToLab :: "real \<Rightarrow> real \<Rightarrow> real \<Rightarrow> real \<times> real \<times> real" where
  "rgbToLab r g b = (case rgbToXyz r g b of (x, y, z) \<Rightarrow> xyzToLab x y z)"

text \<open>
  \<open>Math.atan2(y, x)\<close> on real arguments (the signed zeros of doubles are not
  distinguished: both arguments zero gives 0).
\<close>

definition atan2 :: "real \<Rightarrow> real \<Rightarrow> real" where
  "atan2 y x =
     (if x > 0 then arctan (y / x)
      else if x < 0 then (if y \<ge> 0 then arctan (y / x) + pi else arctan (y / x) - pi)
      else if y > 0 then pi / 2
      else if y < 0 then - (pi / 2)
      else 0)"

definition ciede2000 :: "real \<times> real \<times> real \<Rightarrow> real \<times> real \<times> real \<Rightarrow> real" where
  "ciede2000 lab1 lab2 =
     (case lab1 of (l1, a1, b1) \<Rightarrow> case lab2 of (l2, a2, b2) \<Rightarrow>
      let c1 = sqrt (a1 * a1 + b1 * b1);
          c2 = sqrt (a2 * a2 + b2 * b2);
          cBar = (c1 + c2) / 2;
          g = 0.5 * (1 - sqrt (cBar ^ 7 / (cBar ^ 7 + POW25_7)));
          a1Prime = (1 + g) * a1;
          a2Prime = (1 + g) * a2;
          c1Prime = sqrt (a1Prime * a1Prime + b1 * b1);
          c2Prime = sqrt (a2Prime * a2Prime + b2 * b2);
          h1 = atan2 b1 a1Prime * RAD_TO_DEG;
          h1Prime = (if h1 < 0 then h1 + 360 else h1);
          h2 = atan2 b2 a2Prime * RAD_TO_DEG;
          h2Prime = (if h2 < 0 then h2 + 360 else h2);
          deltaLPrime = l2 - l1;
          deltaCPrime = c2Prime - c1Prime;
          hDiff = h2Prime - h1Prime;
          deltaHPrime0 = (if c1Prime * c2Prime = 0 then 0
                          else if \<bar>hDiff\<bar> \<le> 180 then hDiff
                          else if hDiff > 180 then hDiff - 360
                          else hDiff + 360);
          deltaHPrime = 2 * sqrt (c1Prime * c2Prime) * sin ((deltaHPrime0 * DEG_TO_RAD) / 2);
          lBarPrime = (l1 + l2) / 2;
          cBarPrime = (c1Prime + c2Prime) / 2;
          hSum = h1Prime + h2Prime;
          hBarPrime = (if c1Prime * c2Prime = 0 then h1Prime + h2Prime
                       else if \<bar>h1Prime - h2Prime\<bar> \<le> 180 then hSum / 2
                       else if hSum < 360 then (hSum + 360) / 2
                       else (hSum - 360) / 2);
          t = 1 - 0.17 * cos ((hBarPrime - 30) * DEG_TO_RAD)
                + 0.24 * cos ((2 * hBarPrime) * DEG_TO_RAD)
                + 0.32 * cos ((3 * hBarPrime + 6) * DEG_TO_RAD)
                - 0.20 * cos ((4 * hBarPrime - 63) * DEG_TO_RAD);
          deltaTheta = 30 * exp (- (((hBarPrime - 275) / 25) ^ 2));
          rC = 2 * sqrt (cBarPrime ^ 7 / (cBarPrime ^ 7 + POW25_7));
          sL = 1 + (0.015 * (lBarPrime - 50) ^ 2) / sqrt (20 + (lBarPrime - 50) ^ 2);
          sC = 1 + 0.045 * cBarPrime;
          sH = 1 + 0.015 * cBarPrime * t;
          rT = - sin ((2 * deltaTheta) * DEG_TO_RAD) * rC;
          termL = deltaLPrime / (K_L * sL);
          termC = deltaCPrime / (K_C * sC);
          termH = deltaHPrime / (K_H * sH)
      in sqrt (termL * termL + termC * termC + termH * termH + rT * termC * termH))"

text \<open>
  The first three statements of \<open>calculateColorDifference(rgb1, rgb2)\<close>: the distance
  of two colours given by their bytes.
\<close>

definition deltaE2000 :: "rgb \<Rightarrow> rgb \<Rightarrow> real" where
  "deltaE2000 rgb1 rgb2 =
     (case rgb1 of (r1, g1, b1) \<Rightarrow> case rgb2 of (r2, g2, b2) \<Rightarrow>
      let lab1 = rgbToLab (real_of_int r1) (real_of_int g1) (real_of_int b1);
          lab2 = rgbToLab (real_of_int r2) (real_of_int g2) (real_of_int b2)
      in ciede2000 lab1 lab2)"
section \<open>Tile analysis (templateManager.js)\<close>

text \<open>A write candidate, the object \<open>pixelData\<close> pushed to the queue.\<close>

record candidate =
  tileCoords :: "int \<times> int"
  pixelCoords :: "int \<times> int"
  colorId :: int
  priority :: real

text \<open>
  The fields of \<open>TemplateManager\<close> that analysis and scheduling read or write.
  \<open>templateColorCache\<close> is the \<open>Map\<close> created once in the constructor; its keys
  are the 32-bit integers produced by the shift-and-or expression in \<open>analyzeTile\<close>.
\<close>

record templateManager =
  tileSize :: nat
  drawMult :: nat
  analyzeTransparentPixels :: bool
  pixelQueue :: "candidate list"
  templateColorCache :: "32 word \<rightharpoonup> int"

text \<open>The constructor; \<open>stored\<close> is the queue parsed from local storage.\<close>

definition newTemplateManager :: "candidate list \<Rightarrow> templateManager" where
  "newTemplateManager stored =
     \<lparr>tileSize = 1000, drawMult = 3, analyzeTransparentPixels = False,
      pixelQueue = stored, templateColorCache = Map.empty\<rparr>"

definition setAnalyzeTransparentPixels :: "bool \<Rightarrow> templateManager \<Rightarrow> templateManager" where
  "setAnalyzeTransparentPixels v tm = tm\<lparr>analyzeTransparentPixels := v\<rparr>"

text \<open>
  One element of \<open>templatesToDraw\<close>: the chunk's offset inside the tile and the size of
  its (already magnified) bitmap.
\<close>

record templateToDraw =
  chunkPixelCoords :: "int \<times> int"
  bitmapWidth :: nat
  bitmapHeight :: nat

text \<open>
  The first loop of \<open>analyzeTile\<close>: the bounding rectangle \<open>(minX, minY, maxX, maxY)\<close>.
  The lower corner is a minimum of integers; the upper corner adds
  \<open>bitmap.width / drawMult\<close>, a JavaScript division, so it is a real number.
\<close>

fun boundingRect :: "nat \<Rightarrow> templateToDraw list \<Rightarrow> int \<times> int \<times> real \<times> real \<Rightarrow> int \<times> int \<times> real \<times> real" where
  "boundingRect dm [] acc = acc"
| "boundingRect dm (template # rest) (minX, minY, maxX, maxY) =
     (let startX = fst (chunkPixelCoords template);
          startY = snd (chunkPixelCoords template);
          templateWidth = real (bitmapWidth template) / real dm;
          templateHeight = real (bitmapHeight template) / real dm
      in boundingRect dm rest
           (min minX startX, min minY startY,
            max maxX (real_of_int startX + templateWidth),
            max maxY (real_of_int startY + templateHeight)))"

text \<open>
  The data of a \<open>getImageData(0, 0, drawSize, drawSize)\<close> call: a byte array of
  length \<open>drawSize * drawSize * 4\<close>, given by its contents. Both rasters of one
  analysis have this same length.
\<close>

type_synonym imageData = "nat \<Rightarrow> 8 word"

definition templateColorKey :: "8 word \<Rightarrow> 8 word \<Rightarrow> 8 word \<Rightarrow> 8 word \<Rightarrow> 32 word" where
  "templateColorKey templateAlpha templateB templateG templateR =
     push_bit 24 (ucast templateAlpha) OR push_bit 16 (ucast templateB)
       OR push_bit 8 (ucast templateG) OR ucast templateR"

definition centerBonus :: "int \<times> int \<times> real \<times> real \<Rightarrow> int \<Rightarrow> int \<Rightarrow> real" where
  "centerBonus rect x y =
     (case rect of (minX, minY, maxX, maxY) \<Rightarrow>
        let centerX = real_of_int minX + (maxX - real_of_int minX) / 2;
            centerY = real_of_int minY + (maxY - real_of_int minY) / 2;
            maxDist = sqrt ((maxX - centerX)\<^sup>2 + (maxY - centerY)\<^sup>2);
            distFromCenter = sqrt ((real_of_int x - centerX)\<^sup>2 + (real_of_int y - centerY)\<^sup>2);
            normalizedDist = (if maxDist > 0 then distFromCenter / maxDist else 0)
        in (1 - normalizedDist) * 500000)"

text \<open>
  Tier 3 score: \<open>Math.min(colorDifference / 100.0, 1.0) * MAX_PRIORITY_SCORE\<close> with
  \<open>MAX_PRIORITY_SCORE = 500000\<close>.
\<close>

definition colorPriority :: "real \<Rightarrow> real" where
  "colorPriority colorDifference = min (colorDifference / 100) 1 * 500000"

text \<open>
  The cache lookup in front of \<open>findClosestColor\<close>: a hit returns the stored id, a miss
  computes and stores it.
\<close>

definition cachedTargetColor ::
  "(32 word \<rightharpoonup> int) \<Rightarrow> 32 word \<Rightarrow> rgb \<Rightarrow> error + (int \<times> (32 word \<rightharpoonup> int))" where
  "cachedTargetColor cache key c =
     (case cache key of
        Some targetColorId \<Rightarrow> Inr (targetColorId, cache)
      | None \<Rightarrow>
          (case findClosestColor c of
             Inl e \<Rightarrow> Inl e
           | Inr targetColorId \<Rightarrow> Inr (targetColorId, cache(key \<mapsto> targetColorId))))"

definition rgbOf :: "8 word \<Rightarrow> 8 word \<Rightarrow> 8 word \<Rightarrow> rgb" where
  "rgbOf r g b = (uint r, uint g, uint b)"

text \<open>
  The body of the two nested loops for one pixel \<open>(x, y)\<close>: the candidate it pushes,
  if any, and the cache afterwards. An index outside the arrays reads \<open>undefined\<close> for
  every channel; all comparisons with \<open>undefined\<close> are false, so no branch is taken.
  \<open>deltaE\<close> stands for \<open>ciede2000\<close> after \<open>rgbToLab\<close> (\<open>deltaE2000\<close>). The logging block after the
  classification computes names nobody reads and is left out.
\<close>

definition analyzePixel ::
  "templateManager \<Rightarrow> (rgb \<Rightarrow> rgb \<Rightarrow> real) \<Rightarrow> imageData \<Rightarrow> imageData \<Rightarrow> int \<times> int
     \<Rightarrow> int \<times> int \<times> real \<times> real \<Rightarrow> int \<Rightarrow> int \<Rightarrow> (32 word \<rightharpoonup> int)
     \<Rightarrow> error + (candidate option \<times> (32 word \<rightharpoonup> int))" where
  "analyzePixel tm deltaE gameImageData templateImageData tc rect x y cache =
     (let drawSize = int (tileSize tm * drawMult tm);
          index = ((y * int (drawMult tm) + 1) * drawSize + (x * int (drawMult tm) + 1)) * 4
      in if index < 0 \<or> drawSize * drawSize * 4 \<le> index then Inr (None, cache)
         else
           let i = nat index;
               templateR = templateImageData i; templateG = templateImageData (i + 1);
               templateB = templateImageData (i + 2); templateAlpha = templateImageData (i + 3);
               gameR = gameImageData i; gameG = gameImageData (i + 1);
               gameB = gameImageData (i + 2); gameAlpha = gameImageData (i + 3)
           in if analyzeTransparentPixels tm \<and> unat templateAlpha < 128 \<and> unat gameAlpha > 0
              then Inr (Some \<lparr>tileCoords = tc, pixelCoords = (x, y), colorId = 0, priority = 2000000\<rparr>,
                        cache)
              else if unat templateAlpha > 128
              then
                (let isTransparent = (unat gameAlpha < 128) in
                 case cachedTargetColor cache
                        (templateColorKey templateAlpha templateB templateG templateR)
                        (rgbOf templateR templateG templateB) of
                   Inl e \<Rightarrow> Inl e
                 | Inr (targetColorId, cache') \<Rightarrow>
                     (case (if \<not> isTransparent
                            then (case findClosestColor (rgbOf gameR gameG gameB) of
                                    Inl e \<Rightarrow> Inl e
                                  | Inr currentColorId \<Rightarrow> Inr (currentColorId \<noteq> targetColorId))
                            else Inr False) of
                        Inl e \<Rightarrow> Inl e
                      | Inr isWrongColor \<Rightarrow>
                          if isTransparent \<or> isWrongColor
                          then Inr (Some \<lparr>tileCoords = tc, pixelCoords = (x, y),
                                          colorId = targetColorId,
                                          priority =
                                            (if isTransparent then 1000000 + centerBonus rect x y
                                             else colorPriority
                                                    (calculateColorDifference
                                                       (deltaE (rgbOf gameR gameG gameB)
                                                               (rgbOf templateR templateG templateB)))
                                                  + centerBonus rect x y)\<rparr>,
                                    cache')
                          else Inr (None, cache')))
              else Inr (None, cache))"

text \<open>
  The nested \<open>for\<close> loops as one pass over the pixel coordinates in loop order,
  threading the cache and collecting \<open>newPixelsForQueue\<close>.
\<close>

fun analyzePixels ::
  "templateManager \<Rightarrow> (rgb \<Rightarrow> rgb \<Rightarrow> real) \<Rightarrow> imageData \<Rightarrow> imageData \<Rightarrow> int \<times> int
     \<Rightarrow> int \<times> int \<times> real \<times> real \<Rightarrow> (int \<times> int) list \<Rightarrow> (32 word \<rightharpoonup> int)
     \<Rightarrow> error + (candidate list \<times> (32 word \<rightharpoonup> int))" where
  "analyzePixels tm deltaE g t tc rect [] cache = Inr ([], cache)"
| "analyzePixels tm deltaE g t tc rect ((x, y) # rest) cache =
     (case analyzePixel tm deltaE g t tc rect x y cache of
        Inl e \<Rightarrow> Inl e
      | Inr (pixelData, cache') \<Rightarrow>
          (case analyzePixels tm deltaE g t tc rect rest cache' of
             Inl e \<Rightarrow> Inl e
           | Inr (newPixelsForQueue, cache'') \<Rightarrow>
               Inr ((case pixelData of None \<Rightarrow> newPixelsForQueue
                     | Some p \<Rightarrow> p # newPixelsForQueue), cache'')))"

text \<open>
  \<open>for (let y = minY; y < maxY; y++) for (let x = minX; x < maxX; x++)\<close>:
  the counters start at integers, so they visit the integers below the (real) upper
  corner, rows outermost.
\<close>

definition loopCoords :: "int \<times> int \<times> real \<times> real \<Rightarrow> (int \<times> int) list" where
  "loopCoords rect =
     (case rect of (minX, minY, maxX, maxY) \<Rightarrow>
        concat (map (\<lambda>y. map (\<lambda>x. (x, y)) [minX .. \<lceil>maxX\<rceil> - 1]) [minY .. \<lceil>maxY\<rceil> - 1]))"

text \<open>
  \<open>analyzeTile(tileBlob, templatesToDraw, tileCoords)\<close>. \<open>decoded\<close> is the raster of the
  live tile, \<open>None\<close> when \<open>createImageBitmap\<close> rejects; \<open>templateImageData\<close> is the
  raster the canvas produced from the chunks. The result carries the manager, whose
  colour cache the pass may have extended.
\<close>

definition analyzeTile ::
  "templateManager \<Rightarrow> (rgb \<Rightarrow> rgb \<Rightarrow> real) \<Rightarrow> imageData option \<Rightarrow> imageData
     \<Rightarrow> templateToDraw list \<Rightarrow> int \<times> int \<Rightarrow> error + (candidate list \<times> templateManager)" where
  "analyzeTile tm deltaE decoded templateImageData templatesToDraw tc =
     (if templatesToDraw = [] then Inr ([], tm)
      else
        let rect = boundingRect (drawMult tm) templatesToDraw
                     (int (tileSize tm), int (tileSize tm), 0, 0)
        in case decoded of
             None \<Rightarrow> Inl DecodeError
           | Some gameImageData \<Rightarrow>
               (case analyzePixels tm deltaE gameImageData templateImageData tc rect
                       (loopCoords rect) (templateColorCache tm) of
                  Inl e \<Rightarrow> Inl e
                | Inr (newPixelsForQueue, cache') \<Rightarrow>
                    Inr (newPixelsForQueue, tm\<lparr>templateColorCache := cache'\<rparr>)))"

subsection \<open>Notions used to state the analysis results\<close>

text \<open>The bounding rectangle \<open>analyzeTile\<close> works on, and the byte index of a pixel's centre sample.\<close>

definition tileRect :: "templateManager \<Rightarrow> templateToDraw list \<Rightarrow> int \<times> int \<times> real \<times> real" where
  "tileRect tm templatesToDraw =
     boundingRect (drawMult tm) templatesToDraw (int (tileSize tm), int (tileSize tm), 0, 0)"

definition sampleIndex :: "templateManager \<Rightarrow> int \<Rightarrow> int \<Rightarrow> int" where
  "sampleIndex tm x y =
     ((y * int (drawMult tm) + 1) * int (tileSize tm * drawMult tm) + (x * int (drawMult tm) + 1)) * 4"

definition inRaster :: "templateManager \<Rightarrow> int \<Rightarrow> int \<Rightarrow> bool" where
  "inRaster tm x y =
     (0 \<le> sampleIndex tm x y \<and>
      sampleIndex tm x y < int (tileSize tm * drawMult tm) * int (tileSize tm * drawMult tm) * 4)"

text \<open>The alpha channel of the centre sample of pixel \<open>(x, y)\<close> in a raster.\<close>

definition alphaAt :: "templateManager \<Rightarrow> imageData \<Rightarrow> int \<Rightarrow> int \<Rightarrow> nat" where
  "alphaAt tm d x y = unat (d (nat (sampleIndex tm x y) + 3))"

definition rgbAt :: "templateManager \<Rightarrow> imageData \<Rightarrow> int \<Rightarrow> int \<Rightarrow> rgb" where
  "rgbAt tm d x y =
     (let i = nat (sampleIndex tm x y) in rgbOf (d i) (d (i + 1)) (d (i + 2)))"

text \<open>
  A colour cache is consistent when every id it stores under the key of some
  \<open>(alpha, R, G, B)\<close> is the id \<open>findClosestColor\<close> returns for that \<open>(R, G, B)\<close>.
\<close>

definition cacheConsistent :: "(32 word \<rightharpoonup> int) \<Rightarrow> bool" where
  "cacheConsistent cache =
     (\<forall>a b g r v. cache (templateColorKey a b g r) = Some v
        \<longrightarrow> findClosestColor (rgbOf r g b) = Inr v)"

text \<open>The three tiers, told apart by the branch conditions of the loop body.\<close>

datatype tier = GriefClean | NewPlacement | ColorCorrection

definition pixelTier :: "templateManager \<Rightarrow> imageData \<Rightarrow> imageData \<Rightarrow> int \<Rightarrow> int \<Rightarrow> tier option" where
  "pixelTier tm gameImageData templateImageData x y =
     (if \<not> inRaster tm x y then None
      else if analyzeTransparentPixels tm \<and> alphaAt tm templateImageData x y < 128
              \<and> alphaAt tm gameImageData x y > 0 then Some GriefClean
      else if alphaAt tm templateImageData x y > 128
           then (if alphaAt tm gameImageData x y < 128 then Some NewPlacement
                 else Some ColorCorrection)
      else None)"

text \<open>
  The id \<open>findClosestColor\<close> returns, as a plain number (the lookup never fails on
  this palette).
\<close>

definition nearestId :: "rgb \<Rightarrow> int" where
  "nearestId c = (case findClosestColor c of Inr k \<Rightarrow> k | Inl e \<Rightarrow> -1)"

text \<open>What the loop body pushes for pixel \<open>(x, y)\<close>, written without the cache.\<close>

definition expectedPixel ::
  "templateManager \<Rightarrow> (rgb \<Rightarrow> rgb \<Rightarrow> real) \<Rightarrow> imageData \<Rightarrow> imageData \<Rightarrow> int \<times> int
     \<Rightarrow> int \<times> int \<times> real \<times> real \<Rightarrow> int \<Rightarrow> int \<Rightarrow> candidate option" where
  "expectedPixel tm deltaE g t tc rect x y =
     (case pixelTier tm g t x y of
        None \<Rightarrow> None
      | Some GriefClean \<Rightarrow>
          Some \<lparr>tileCoords = tc, pixelCoords = (x, y), colorId = 0, priority = 2000000\<rparr>
      | Some NewPlacement \<Rightarrow>
          Some \<lparr>tileCoords = tc, pixelCoords = (x, y), colorId = nearestId (rgbAt tm t x y),
                priority = 1000000 + centerBonus rect x y\<rparr>
      | Some ColorCorrection \<Rightarrow>
          (if nearestId (rgbAt tm g x y) \<noteq> nearestId (rgbAt tm t x y)
           then Some \<lparr>tileCoords = tc, pixelCoords = (x, y), colorId = nearestId (rgbAt tm t x y),
                      priority = colorPriority (calculateColorDifference
                                   (deltaE (rgbAt tm g x y) (rgbAt tm t x y)))
                                 + centerBonus rect x y\<rparr>
           else None))"

text \<open>The cache key of the template sample at pixel \<open>(x, y)\<close>.\<close>

definition pixelKey :: "templateManager \<Rightarrow> imageData \<Rightarrow> int \<Rightarrow> int \<Rightarrow> 32 word" where
  "pixelKey tm t x y =
     (let i = nat (sampleIndex tm x y)
      in templateColorKey (t (i + 3)) (t (i + 2)) (t (i + 1)) (t i))"

text \<open>The tier of an emitted candidate: the tier of the pixel it was pushed for.\<close>

definition candidateTier :: "templateManager \<Rightarrow> imageData \<Rightarrow> imageData \<Rightarrow> candidate \<Rightarrow> tier option" where
  "candidateTier tm g t c = pixelTier tm g t (fst (pixelCoords c)) (snd (pixelCoords c))"

section \<open>The paint-cycle controller (autoPainter.js)\<close>

text \<open>
  What the controller does to the page, in the order it does it: reloading, setting
  and removing the \<open>bm-network-paused\<close> entry of local storage, and entering a wait of
  at most the given number of milliseconds (see \<open>waitUnlessStopped\<close>).
\<close>

datatype action = Reload | SetNetworkPaused | ClearNetworkPaused | WaitUpTo nat

text \<open>
  The fields of \<open>AutoPainter\<close> set by its constructor (the promise resolver
  \<open>resolveQuickPaint\<close> is left out), together with the state of the page the controller
  acts on: the network-paused flag and the log of its actions, oldest first.
\<close>

record autoPainter =
  isPainting :: bool
  isCooldown :: bool
  failureCount :: nat
  failureThreshold :: nat
  networkPaused :: bool
  actions :: "action list"

definition newAutoPainter :: autoPainter where
  "newAutoPainter =
     \<lparr>isPainting = False, isCooldown = False, failureCount = 0, failureThreshold = 3,
      networkPaused = False, actions = []\<rparr>"

text \<open>
  \<open>start()\<close> up to the call of \<open>paintCycle()\<close>; \<open>stop()\<close>; \<open>onQuickPaintFinished()\<close>.
  The loop that \<open>start()\<close> launches on a controller that was not running is
  \<open>paintCycle\<close> below.
\<close>

definition start :: "autoPainter \<Rightarrow> autoPainter" where
  "start p = (if \<not> isPainting p then p\<lparr>isPainting := True, failureCount := 0\<rparr> else p)"

definition stop :: "autoPainter \<Rightarrow> autoPainter" where
  "stop p = (if isPainting p then p\<lparr>isPainting := False\<rparr> else p)"

definition onQuickPaintFinished :: "autoPainter \<Rightarrow> autoPainter" where
  "onQuickPaintFinished p = p\<lparr>failureCount := 0\<rparr>"

definition perform :: "action \<Rightarrow> autoPainter \<Rightarrow> autoPainter" where
  "perform a p =
     (case a of
        SetNetworkPaused \<Rightarrow> p\<lparr>networkPaused := True, actions := actions p @ [a]\<rparr>
      | ClearNetworkPaused \<Rightarrow> p\<lparr>networkPaused := False, actions := actions p @ [a]\<rparr>
      | _ \<Rightarrow> p\<lparr>actions := actions p @ [a]\<rparr>)"

text \<open>
  The script runs on one thread, so the user's \<open>stop()\<close> and \<open>start()\<close> (the checkbox of
  the overlay) reach the controller only while the loop is suspended in an \<open>await\<close>.
  \<open>userCalls\<close> applies the calls made during one suspension, in order. A \<open>start()\<close>
  that follows a \<open>stop()\<close> there also launches a second \<open>paintCycle()\<close>; the model
  follows one loop and not what a second one does to the shared fields.
\<close>

datatype userCall = CallStop | CallStart

definition userCalls :: "userCall list \<Rightarrow> autoPainter \<Rightarrow> autoPainter" where
  "userCalls calls p = fold (\<lambda>c. case c of CallStop \<Rightarrow> stop | CallStart \<Rightarrow> start) calls p"

text \<open>
  One sleep \<open>await new Promise(r => setTimeout(r, remaining))\<close> of \<open>waitUnlessStopped\<close>:
  by how many milliseconds the timer fires late, and the user's calls during the
  sleep. Sleeps not listed are on time and undisturbed.
\<close>

type_synonym tick = "nat \<times> userCall list"

definition tickLate :: "tick list \<Rightarrow> nat" where
  "tickLate ticks = (case ticks of [] \<Rightarrow> 0 | t # _ \<Rightarrow> fst t)"

definition tickCalls :: "tick list \<Rightarrow> userCall list" where
  "tickCalls ticks = (case ticks of [] \<Rightarrow> [] | t # _ \<Rightarrow> snd t)"

text \<open>
  The loop of \<open>waitUnlessStopped(ms)\<close>, with \<open>left\<close> the time from \<open>Date.now()\<close> to
  \<open>end\<close> (0 once \<open>end\<close> is reached):
  \<open>while (Date.now() < end) { if (!this.isPainting) return false; await sleep(min(300, end - Date.now())) }\<close>
  and \<open>return true\<close> after it. The flag is read before each sleep and not after the
  last one.
\<close>

function waitLoop :: "nat \<Rightarrow> tick list \<Rightarrow> autoPainter \<Rightarrow> bool \<times> autoPainter" where
  "waitLoop left ticks p =
     (if left = 0 then (True, p)
      else if \<not> isPainting p then (False, p)
      else waitLoop (left - (min 300 left + tickLate ticks)) (tl ticks)
             (userCalls (tickCalls ticks) p))"
  by pat_completeness auto
termination
  by (relation "measure (\<lambda>(left, ticks, p). left)") auto

declare waitLoop.simps [simp del]

definition waitUnlessStopped :: "nat \<Rightarrow> tick list \<Rightarrow> autoPainter \<Rightarrow> bool \<times> autoPainter" where
  "waitUnlessStopped ms ticks p = waitLoop ms ticks (perform (WaitUpTo ms) p)"

text \<open>
  What the page and the user do to one iteration of the loop:
  \<^item> \<open>CanvasMissing ticks\<close>: \<open>document.querySelector\<close> finds no canvas; \<open>ticks\<close> are the
    sleeps of the 5 s retry wait;
  \<^item> \<open>StepFailed calls ticks\<close>: an awaited step rejects (a button never became
    clickable, or a poll found \<open>isPainting\<close> off and cancelled); \<open>calls\<close> are the
    user's calls while the steps were awaited, \<open>ticks\<close> the sleeps of the backoff;
  \<^item> \<open>QuickPaintDone calls ms ticks\<close>: the quick-paint promise wins the race (it is
    resolved through \<open>onQuickPaintFinished\<close>); \<open>calls\<close> are the user's calls while
    the steps were awaited, \<open>ms\<close> is what \<open>getIntervalMs()\<close> returns, \<open>ticks\<close> are the
    sleeps of the interval wait.
\<close>

datatype cycleEvent =
    CanvasMissing "tick list"
  | StepFailed "userCall list" "tick list"
  | QuickPaintDone "userCall list" nat "tick list"

text \<open>
  One iteration of \<open>while (this.isPainting)\<close>: the state after it and whether the loop
  goes on to its next test (\<open>True\<close>) or was left by \<open>break\<close> (\<open>False\<close>).
\<close>

definition paintCycleBody :: "cycleEvent \<Rightarrow> autoPainter \<Rightarrow> autoPainter \<times> bool" where
  "paintCycleBody e p =
     (case e of
        CanvasMissing ticks \<Rightarrow>
          (let (ok, p1) = waitUnlessStopped 5000 ticks p in (p1, ok))
      | QuickPaintDone calls ms ticks \<Rightarrow>
          (let p0 = userCalls calls p;
               p1 = (onQuickPaintFinished p0)\<lparr>failureCount := 0\<rparr> in
           if ms > 0
           then (let p2 = perform SetNetworkPaused p1;
                     (waited, p3) = waitUnlessStopped ms ticks p2
                 in if \<not> waited then (perform ClearNetworkPaused p3, False)
                    else (perform Reload (perform ClearNetworkPaused p3), False))
           else (p1, True))
      | StepFailed calls ticks \<Rightarrow>
          (let p0 = userCalls calls p in
           if \<not> isPainting p0 then (p0, False)
           else
             let p1 = p0\<lparr>failureCount := failureCount p0 + 1\<rparr> in
             if failureCount p1 \<ge> failureThreshold p1 then (perform Reload p1, False)
             else
               let p2 = perform SetNetworkPaused p1;
                   (ok, p3) = waitUnlessStopped 10000 ticks p2;
                   p4 = perform ClearNetworkPaused p3
               in (p4, ok)))"

text \<open>
  \<open>paintCycle()\<close> driven by a finite list of events. When the loop is left, the last
  statement turns \<open>isPainting\<close> off; when the events run out while the loop would go
  on, it is still suspended in the next iteration.
\<close>

datatype loopStatus = Exited | Suspended

fun paintCycle :: "cycleEvent list \<Rightarrow> autoPainter \<Rightarrow> autoPainter \<times> loopStatus" where
  "paintCycle [] p = (if isPainting p then (p, Suspended) else (p\<lparr>isPainting := False\<rparr>, Exited))"
| "paintCycle (e # es) p =
     (if \<not> isPainting p then (p\<lparr>isPainting := False\<rparr>, Exited)
      else case paintCycleBody e p of
             (p', True) \<Rightarrow> paintCycle es p'
           | (p', False) \<Rightarrow> (p'\<lparr>isPainting := False\<rparr>, Exited))"
section \<open>User data and quick paint (apiManager.js)\<close>

subsection \<open>Available colours from the \<open>me\<close> response\<close>

text \<open>\<open>Number.prototype.toString(2)\<close> on a non-negative integer.\<close>

fun toBinaryString :: "nat \<Rightarrow> string" where
  "toBinaryString n =
     (if n < 2 then [if n = 0 then CHR ''0'' else CHR ''1'']
      else toBinaryString (n div 2) @ [if n mod 2 = 0 then CHR ''0'' else CHR ''1''])"

declare toBinaryString.simps [simp del]

text \<open>
  The block that fills \<open>availableColors\<close>. \<open>extraColorsBitmap\<close> is the result of
  \<open>parseInt(..., 10)\<close>: \<open>None\<close> for \<open>NaN\<close> (field missing or not numeric), otherwise
  the integer. \<open>x >>> 0\<close> reduces it modulo \<open>2^32\<close>. The object's keys are the colour
  ids.
\<close>

definition availableColorsFromBitmap :: "int option \<Rightarrow> (int \<rightharpoonup> bool)" where
  "availableColorsFromBitmap extraColorsBitmap =
     (let totalColors = 66;
          mediumGrayIndex = 32;
          availableColors = fold (\<lambda>i m. m(int i \<mapsto> True)) [0 ..< mediumGrayIndex] Map.empty
      in case extraColorsBitmap of
           Some n \<Rightarrow>
             (let binaryBitmap = rev (toBinaryString (nat (n mod 2 ^ 32)));
                  marked = fold (\<lambda>i m. let colorIndex = mediumGrayIndex + i
                                         in if colorIndex < totalColors
                                            then m(int colorIndex \<mapsto> (binaryBitmap ! i = CHR ''1''))
                                            else m)
                             [0 ..< length binaryBitmap] availableColors
              in fold (\<lambda>i m. m(int i \<mapsto> False))
                   [mediumGrayIndex + length binaryBitmap ..< totalColors] marked)
         | None \<Rightarrow>
             fold (\<lambda>i m. m(int i \<mapsto> False)) [mediumGrayIndex ..< totalColors] availableColors)"

subsection \<open>Quick paint: filtering, weighted selection, queue update\<close>

text \<open>Decimal rendering of an integer, as \<open>Array.prototype.join\<close> renders a coordinate.\<close>

fun showNat :: "nat \<Rightarrow> string" where
  "showNat n =
     (if n < 10 then [''0123456789'' ! n]
      else showNat (n div 10) @ [''0123456789'' ! (n mod 10)])"

declare showNat.simps [simp del]

definition showInt :: "int \<Rightarrow> string" where
  "showInt i = (if i < 0 then CHR ''-'' # showNat (nat (- i)) else showNat (nat i))"

definition joinComma :: "int \<times> int \<Rightarrow> string" where
  "joinComma xy = showInt (fst xy) @ '','' @ showInt (snd xy)"

text \<open>The identifier \<open>`${p.tileCoords.join(',')}-${p.pixelCoords.join(',')}`\<close>.\<close>

definition paintedKey :: "candidate \<Rightarrow> string" where
  "paintedKey p = joinComma (tileCoords p) @ ''-'' @ joinComma (pixelCoords p)"

text \<open>
  Step 6: the queue without the pixels whose identifier is in \<open>paintedPixelKeys\<close>.
\<close>

definition removePainted :: "candidate list \<Rightarrow> candidate list \<Rightarrow> candidate list" where
  "removePainted pixelsToPaint queue =
     (let paintedPixelKeys = set (map paintedKey pixelsToPaint)
      in filter (\<lambda>p. paintedKey p \<notin> paintedPixelKeys) queue)"

text \<open>
  \<open>[...filteredQueue].sort((a, b) => (b.priority || 0) - (a.priority || 0))\<close>:
  a stable sort by descending priority.
\<close>

definition sortByPriority :: "candidate list \<Rightarrow> candidate list" where
  "sortByPriority queue = sort_key (\<lambda>p. - priority p) queue"

text \<open>
  The weight of rank \<open>i\<close> in a list of length \<open>L\<close>:
  \<open>L > 1 ? (-2.0 / (L - 1.0)) * i + 3.0 : 1.0\<close>.
\<close>

definition weight :: "nat \<Rightarrow> nat \<Rightarrow> real" where
  "weight L i = (if L > 1 then (- 2 / (real L - 1)) * real i + 3 else 1)"

text \<open>
  \<open>sortedQueue.map((pixel, i) => ({pixel, key: Math.pow(u, 1.0 / weight)}))\<close> where
  \<open>u\<close> is the result of the \<open>i\<close>-th call of \<open>Math.random()\<close>, given by \<open>random i\<close>.
  \<open>Math.random\<close> and \<open>Math.pow\<close> belong to the host. Which pixels are selected hangs
  on the order of the keys, which can turn on the last bit of what \<open>Math.pow\<close>
  returns; so \<open>Math.pow\<close> is the argument \<open>pow\<close> here, and the exact power is the
  instance \<open>pow = (powr)\<close>. The weight and its inverse are computed over the reals.
\<close>

definition weightedItems ::
  "(real \<Rightarrow> real \<Rightarrow> real) \<Rightarrow> (nat \<Rightarrow> real) \<Rightarrow> candidate list \<Rightarrow> (candidate \<times> real) list" where
  "weightedItems pow random sortedQueue =
     map (\<lambda>i. (sortedQueue ! i, pow (random i) (1 / weight (length sortedQueue) i)))
       [0 ..< length sortedQueue]"

text \<open>
  \<open>weightedItems.sort((a, b) => b.key - a.key)\<close> (stable, descending key) and
  \<open>slice(0, numToPaint)\<close>.
\<close>

definition selectedItems ::
  "(real \<Rightarrow> real \<Rightarrow> real) \<Rightarrow> (nat \<Rightarrow> real) \<Rightarrow> nat \<Rightarrow> candidate list \<Rightarrow> (candidate \<times> real) list" where
  "selectedItems pow random numToPaint sortedQueue =
     take numToPaint (sort_key (\<lambda>item. - snd item) (weightedItems pow random sortedQueue))"

definition selectPixels ::
  "(real \<Rightarrow> real \<Rightarrow> real) \<Rightarrow> (nat \<Rightarrow> real) \<Rightarrow> nat \<Rightarrow> candidate list \<Rightarrow> candidate list" where
  "selectPixels pow random paintCount filteredQueue =
     (let sortedQueue = sortByPriority filteredQueue;
          numToPaint = min paintCount (length sortedQueue)
      in if numToPaint > 0 then map fst (selectedItems pow random numToPaint sortedQueue) else [])"

text \<open>
  Step 5: the groups of the \<open>Map\<close> in insertion order, each with its colours and its
  flattened coordinates.
\<close>

definition addToGroup ::
  "candidate \<Rightarrow> (string \<times> int list \<times> int list) list \<Rightarrow> (string \<times> int list \<times> int list) list" where
  "addToGroup pixel tilesToPaint =
     (let key = joinComma (tileCoords pixel);
          groups = (if key \<in> fst ` set tilesToPaint then tilesToPaint
                    else tilesToPaint @ [(key, [], [])])
      in map (\<lambda>(k, colors, coords).
                if k = key
                then (k, colors @ [colorId pixel],
                      coords @ [fst (pixelCoords pixel), snd (pixelCoords pixel)])
                else (k, colors, coords)) groups)"

definition groupByTile :: "candidate list \<Rightarrow> (string \<times> int list \<times> int list) list" where
  "groupByTile pixelsToPaint = fold addToGroup pixelsToPaint []"

text \<open>
  What one run of \<open>executeQuickPaint\<close> leaves behind: the manager with its queue,
  the selected pixels, the paint requests, and whether the charge-burning request
  was sent instead.
\<close>

record quickPaintOutcome =
  manager :: templateManager
  painted :: "candidate list"
  requests :: "(string \<times> int list \<times> int list) list"
  burned :: bool

text \<open>
  \<open>executeQuickPaint\<close> from step 3 on. \<open>hasTemplatePixels\<close> says that templates are
  loaded and have chunks; \<open>fullPixelQueue\<close> is the flattened result of fetching and
  analysing the tiles; \<open>reservedCharges\<close> is the parsed input field;
  \<open>availableColors\<close> is the object read back from local storage; \<open>pow\<close> and
  \<open>random\<close> are the host's \<open>Math.pow\<close> and the results of its \<open>Math.random\<close>.
\<close>

definition executeQuickPaint ::
  "templateManager \<Rightarrow> bool \<Rightarrow> candidate list \<Rightarrow> int \<Rightarrow> int \<Rightarrow> int \<Rightarrow> (int \<rightharpoonup> bool)
     \<Rightarrow> (real \<Rightarrow> real \<Rightarrow> real) \<Rightarrow> (nat \<Rightarrow> real) \<Rightarrow> quickPaintOutcome" where
  "executeQuickPaint tm hasTemplatePixels fullPixelQueue currentCharges maxCharges reservedCharges
       availableColors pow random =
     (if \<not> hasTemplatePixels
      then \<lparr>manager = tm, painted = [], requests = [], burned = False\<rparr>
      else
        let tm1 = tm\<lparr>pixelQueue := fullPixelQueue\<rparr>;
            fullyCharged = (currentCharges \<ge> maxCharges \<and> maxCharges > 0)
        in if fullPixelQueue = []
           then \<lparr>manager = tm1, painted = [], requests = [], burned = fullyCharged\<rparr>
           else
             let paintCount = max 0 (currentCharges - reservedCharges);
                 filteredQueue = filter (\<lambda>pixel. colorId pixel = 0
                                            \<or> availableColors (colorId pixel) = Some True)
                                   fullPixelQueue
             in if filteredQueue = [] \<or> paintCount = 0
                then \<lparr>manager = tm1, painted = [], requests = [], burned = fullyCharged\<rparr>
                else
                  let pixelsToPaint = selectPixels pow random (nat paintCount) filteredQueue
                  in if pixelsToPaint = []
                     then \<lparr>manager = tm1, painted = [], requests = [], burned = False\<rparr>
                     else \<lparr>manager = tm1\<lparr>pixelQueue := removePainted pixelsToPaint (pixelQueue tm1)\<rparr>,
                           painted = pixelsToPaint,
                           requests = groupByTile pixelsToPaint,
                           burned = False\<rparr>)"

subsection \<open>Notions used to reason about the key strings\<close>


definition digitVal :: "char \<Rightarrow> nat" where
  "digitVal c = of_char c - 48"

definition isDigit :: "char \<Rightarrow> bool" where
  "isDigit c = (c \<in> set ''0123456789'')"

section \<open>Properties of the nearest-colour lookup\<close>


lemma lessThanMin_trans: "a < b \<Longrightarrow> lessThanMin b m \<Longrightarrow> lessThanMin a m"
  by (cases m) auto

lemma lessThanMin_false: "\<not> lessThanMin b m \<Longrightarrow> lessThanMin a m \<Longrightarrow> a < b"
  by (cases m) auto

lemma closestLoop_spec:
  assumes "index > 0"
  shows "\<exists>m' k'. closestLoop c (map Some qs) index (m, k) = Inr (m', k') \<and>
     ((m' = m \<and> k' = k \<and> (\<forall>j < length qs. \<not> lessThanMin (distanceSq c (qs ! j)) m))
      \<or> (\<exists>j < length qs. k' = int (index + j) \<and> m' = Some (distanceSq c (qs ! j))
            \<and> lessThanMin (distanceSq c (qs ! j)) m
            \<and> (\<forall>j' < length qs. distanceSq c (qs ! j) \<le> distanceSq c (qs ! j'))
            \<and> (\<forall>j' < j. distanceSq c (qs ! j) < distanceSq c (qs ! j'))))"
  using assms
proof (induction qs arbitrary: index m k)
  case Nil
  then show ?case by simp
next
  case (Cons q qs)
  have pos: "Suc index > 0" by simp
  let ?d = "distanceSq c q"
  show ?case
  proof (cases "lessThanMin ?d m")
    case True
    from Cons.IH[OF pos, of "Some ?d" "int index"]
    obtain m' k' where run: "closestLoop c (map Some qs) (Suc index) (Some ?d, int index) = Inr (m', k')"
      and alt: "(m' = Some ?d \<and> k' = int index \<and> (\<forall>j < length qs. \<not> distanceSq c (qs ! j) < ?d))
      \<or> (\<exists>j < length qs. k' = int (Suc index + j) \<and> m' = Some (distanceSq c (qs ! j))
            \<and> distanceSq c (qs ! j) < ?d
            \<and> (\<forall>j' < length qs. distanceSq c (qs ! j) \<le> distanceSq c (qs ! j'))
            \<and> (\<forall>j' < j. distanceSq c (qs ! j) < distanceSq c (qs ! j')))"
      by auto
    have eq: "closestLoop c (map Some (q # qs)) index (m, k) = Inr (m', k')"
      using True Cons.prems run by simp
    from alt show ?thesis
    proof
      assume a: "m' = Some ?d \<and> k' = int index \<and> (\<forall>j < length qs. \<not> distanceSq c (qs ! j) < ?d)"
      have "0 < length (q # qs) \<and> k' = int (index + 0) \<and> m' = Some (distanceSq c ((q # qs) ! 0))
            \<and> lessThanMin (distanceSq c ((q # qs) ! 0)) m
            \<and> (\<forall>j' < length (q # qs). distanceSq c ((q # qs) ! 0) \<le> distanceSq c ((q # qs) ! j'))
            \<and> (\<forall>j' < (0::nat). distanceSq c ((q # qs) ! 0) < distanceSq c ((q # qs) ! j'))"
        using a True by (auto simp: nth_Cons split: nat.splits)
      then show ?thesis using eq by blast
    next
      assume "\<exists>j < length qs. k' = int (Suc index + j) \<and> m' = Some (distanceSq c (qs ! j))
            \<and> distanceSq c (qs ! j) < ?d
            \<and> (\<forall>j' < length qs. distanceSq c (qs ! j) \<le> distanceSq c (qs ! j'))
            \<and> (\<forall>j' < j. distanceSq c (qs ! j) < distanceSq c (qs ! j'))"
      then obtain j where j: "j < length qs" "k' = int (Suc index + j)" "m' = Some (distanceSq c (qs ! j))"
            "distanceSq c (qs ! j) < ?d"
            "\<forall>j' < length qs. distanceSq c (qs ! j) \<le> distanceSq c (qs ! j')"
            "\<forall>j' < j. distanceSq c (qs ! j) < distanceSq c (qs ! j')" by blast
      have "Suc j < length (q # qs) \<and> k' = int (index + Suc j) \<and> m' = Some (distanceSq c ((q # qs) ! Suc j))
            \<and> lessThanMin (distanceSq c ((q # qs) ! Suc j)) m
            \<and> (\<forall>j' < length (q # qs). distanceSq c ((q # qs) ! Suc j) \<le> distanceSq c ((q # qs) ! j'))
            \<and> (\<forall>j' < Suc j. distanceSq c ((q # qs) ! Suc j) < distanceSq c ((q # qs) ! j'))"
        using j True lessThanMin_trans[OF j(4) True] by (auto simp: nth_Cons split: nat.splits)
      then show ?thesis using eq by blast
    qed
  next
    case False
    from Cons.IH[OF pos, of m k]
    obtain m' k' where run: "closestLoop c (map Some qs) (Suc index) (m, k) = Inr (m', k')"
      and alt: "(m' = m \<and> k' = k \<and> (\<forall>j < length qs. \<not> lessThanMin (distanceSq c (qs ! j)) m))
      \<or> (\<exists>j < length qs. k' = int (Suc index + j) \<and> m' = Some (distanceSq c (qs ! j))
            \<and> lessThanMin (distanceSq c (qs ! j)) m
            \<and> (\<forall>j' < length qs. distanceSq c (qs ! j) \<le> distanceSq c (qs ! j'))
            \<and> (\<forall>j' < j. distanceSq c (qs ! j) < distanceSq c (qs ! j')))"
      by blast
    have eq: "closestLoop c (map Some (q # qs)) index (m, k) = Inr (m', k')"
      using False Cons.prems run by simp
    from alt show ?thesis
    proof
      assume a: "m' = m \<and> k' = k \<and> (\<forall>j < length qs. \<not> lessThanMin (distanceSq c (qs ! j)) m)"
      have "m' = m \<and> k' = k \<and> (\<forall>j < length (q # qs). \<not> lessThanMin (distanceSq c ((q # qs) ! j)) m)"
        using a False by (auto simp: nth_Cons split: nat.splits)
      then show ?thesis using eq by blast
    next
      assume "\<exists>j < length qs. k' = int (Suc index + j) \<and> m' = Some (distanceSq c (qs ! j))
            \<and> lessThanMin (distanceSq c (qs ! j)) m
            \<and> (\<forall>j' < length qs. distanceSq c (qs ! j) \<le> distanceSq c (qs ! j'))
            \<and> (\<forall>j' < j. distanceSq c (qs ! j) < distanceSq c (qs ! j'))"
      then obtain j where j: "j < length qs" "k' = int (Suc index + j)" "m' = Some (distanceSq c (qs ! j))"
            "lessThanMin (distanceSq c (qs ! j)) m"
            "\<forall>j' < length qs. distanceSq c (qs ! j) \<le> distanceSq c (qs ! j')"
            "\<forall>j' < j. distanceSq c (qs ! j) < distanceSq c (qs ! j')" by blast
      have lt: "distanceSq c (qs ! j) < ?d" using lessThanMin_false[OF False j(4)] .
      have "Suc j < length (q # qs) \<and> k' = int (index + Suc j) \<and> m' = Some (distanceSq c ((q # qs) ! Suc j))
            \<and> lessThanMin (distanceSq c ((q # qs) ! Suc j)) m
            \<and> (\<forall>j' < length (q # qs). distanceSq c ((q # qs) ! Suc j) \<le> distanceSq c ((q # qs) ! j'))
            \<and> (\<forall>j' < Suc j. distanceSq c ((q # qs) ! Suc j) < distanceSq c ((q # qs) ! j'))"
        using j lt by (auto simp: nth_Cons split: nat.splits)
      then show ?thesis using eq by blast
    qed
  qed
qed


lemma initializePalettes_fresh: "initializePalettes None = None # map Some paletteRGBs"
  by (simp add: initializePalettes_def paletteRGBs_def colorpalette_def)

lemma length_colorpalette: "length colorpalette = 64"
  by (simp add: colorpalette_def)

lemma length_paletteRGBs: "length paletteRGBs = 63"
  by (simp add: paletteRGBs_def length_colorpalette)

lemma paletteRGBs_nth: "j < 63 \<Longrightarrow> paletteRGBs ! j = rgb (colorpalette ! Suc j)"
  by (simp add: paletteRGBs_def nth_tl length_colorpalette)

lemma findClosestColorSt_again:
  "findClosestColorSt (snd (findClosestColorSt None c')) c = findClosestColorSt None c"
  by (simp add: findClosestColorSt_def initializePalettes_def Let_def)

text \<open>
  Claim C8. For every RGB triple, \<open>findClosestColor\<close> returns an id \<open>k\<close> of a
  non-transparent palette entry (\<open>1 \<le> k\<close>, never 0, never the initial \<open>-1\<close>);
  \<open>k\<close> minimises the squared Euclidean distance over all entries with id at least 1;
  every entry before \<open>k\<close> is strictly farther, so ties go to the first minimal entry
  in palette order; and a call made after an earlier call (which filled the module's
  table) returns the same id.
\<close>

theorem findClosestColor_nearest:
  "\<exists>k. findClosestColor c = Inr (int k) \<and> 1 \<le> k \<and> k < length colorpalette
     \<and> (\<forall>j. 1 \<le> j \<and> j < length colorpalette \<longrightarrow>
            distanceSq c (rgb (colorpalette ! k)) \<le> distanceSq c (rgb (colorpalette ! j)))
     \<and> (\<forall>j. 1 \<le> j \<and> j < k \<longrightarrow>
            distanceSq c (rgb (colorpalette ! k)) < distanceSq c (rgb (colorpalette ! j)))
     \<and> fst (findClosestColorSt (snd (findClosestColorSt None c')) c) = findClosestColor c"
proof -
  have "\<not> (\<forall>j < length paletteRGBs. \<not> lessThanMin (distanceSq c (paletteRGBs ! j)) None)"
    by (auto simp: length_paletteRGBs intro: exI[of _ 0])
  with closestLoop_spec[of 1 c paletteRGBs None "-1"]
  obtain m' k' where run: "closestLoop c (map Some paletteRGBs) 1 (None, -1) = Inr (m', k')"
    and "(\<exists>j < length paletteRGBs. k' = int (1 + j) \<and> m' = Some (distanceSq c (paletteRGBs ! j))
            \<and> (\<forall>j' < length paletteRGBs. distanceSq c (paletteRGBs ! j) \<le> distanceSq c (paletteRGBs ! j'))
            \<and> (\<forall>j' < j. distanceSq c (paletteRGBs ! j) < distanceSq c (paletteRGBs ! j')))"
    by fastforce
  then obtain j where j: "j < 63" "k' = int (Suc j)"
     "\<forall>j' < 63. distanceSq c (paletteRGBs ! j) \<le> distanceSq c (paletteRGBs ! j')"
     "\<forall>j' < j. distanceSq c (paletteRGBs ! j) < distanceSq c (paletteRGBs ! j')"
    by (auto simp: length_paletteRGBs)
  have res: "findClosestColor c = Inr (int (Suc j))"
    using run j(2) by (simp add: findClosestColor_def findClosestColorSt_def initializePalettes_fresh)
  have min: "\<forall>i. 1 \<le> i \<and> i < length colorpalette \<longrightarrow>
            distanceSq c (rgb (colorpalette ! Suc j)) \<le> distanceSq c (rgb (colorpalette ! i))"
  proof (intro allI impI)
    fix i assume i: "1 \<le> i \<and> i < length colorpalette"
    then obtain i' where i': "i = Suc i'" "i' < 63" by (cases i) (auto simp: length_colorpalette)
    from j(3) i'(2) have "distanceSq c (paletteRGBs ! j) \<le> distanceSq c (paletteRGBs ! i')" by blast
    then show "distanceSq c (rgb (colorpalette ! Suc j)) \<le> distanceSq c (rgb (colorpalette ! i))"
      using j(1) i' by (simp add: paletteRGBs_nth)
  qed
  have first: "\<forall>i. 1 \<le> i \<and> i < Suc j \<longrightarrow>
            distanceSq c (rgb (colorpalette ! Suc j)) < distanceSq c (rgb (colorpalette ! i))"
  proof (intro allI impI)
    fix i assume i: "1 \<le> i \<and> i < Suc j"
    then obtain i' where i': "i = Suc i'" "i' < j" by (cases i) auto
    from j(4) i'(2) have "distanceSq c (paletteRGBs ! j) < distanceSq c (paletteRGBs ! i')" by blast
    then show "distanceSq c (rgb (colorpalette ! Suc j)) < distanceSq c (rgb (colorpalette ! i))"
      using j(1) i' by (simp add: paletteRGBs_nth)
  qed
  have again: "fst (findClosestColorSt (snd (findClosestColorSt None c')) c) = findClosestColor c"
    by (simp add: findClosestColorSt_again findClosestColor_def)
  have "Suc j < length colorpalette" using j(1) by (simp add: length_colorpalette)
  with res min first again show ?thesis by (intro exI[of _ "Suc j"]) simp
qed


text \<open>
  Witness for C8 at the colour (250, 0, 0), compared with entry 33 ("Dark Red").
\<close>

theorem findClosestColor_nearest_witness:
  "\<exists>k. findClosestColor (250, 0, 0) = Inr (int k) \<and> k \<noteq> 0
      \<and> distanceSq (250, 0, 0) (rgb (colorpalette ! k)) \<le> distanceSq (250, 0, 0) (rgb (colorpalette ! 33))"
proof -
  from findClosestColor_nearest[of "(250, 0, 0)" "(1, 2, 3)"]
  obtain k where k: "findClosestColor (250, 0, 0) = Inr (int k)" "1 \<le> k"
    "\<forall>j. 1 \<le> j \<and> j < length colorpalette \<longrightarrow>
            distanceSq (250, 0, 0) (rgb (colorpalette ! k)) \<le> distanceSq (250, 0, 0) (rgb (colorpalette ! j))"
    by blast
  have "(1::nat) \<le> 33 \<and> 33 < length colorpalette" by (simp add: length_colorpalette)
  with k(3) have "distanceSq (250, 0, 0) (rgb (colorpalette ! k)) \<le> distanceSq (250, 0, 0) (rgb (colorpalette ! 33))"
    by blast
  with k(1,2) show ?thesis by auto
qed

section \<open>Properties of the tile analysis\<close>


lemma findClosestColor_Inr: "\<exists>k. findClosestColor c = Inr (int k) \<and> 1 \<le> k \<and> k < 64"
proof -
  have "\<not> (\<forall>j < length paletteRGBs. \<not> lessThanMin (distanceSq c (paletteRGBs ! j)) None)"
    by (auto simp: length_paletteRGBs intro: exI[of _ 0])
  with closestLoop_spec[of 1 c paletteRGBs None "-1"]
  obtain m' j where "closestLoop c (map Some paletteRGBs) 1 (None, -1) = Inr (m', int (1 + j))" "j < 63"
    by (fastforce simp: length_paletteRGBs)
  then show ?thesis
    by (intro exI[of _ "Suc j"])
       (simp add: findClosestColor_def findClosestColorSt_def initializePalettes_fresh)
qed

lemma key_r: "ucast (templateColorKey a b g r) = r"
  unfolding templateColorKey_def
  by (rule bit_word_eqI) (auto simp add: bit_simps dest: bit_imp_le_length)

lemma key_g: "ucast (drop_bit 8 (templateColorKey a b g r)) = g"
  unfolding templateColorKey_def
  by (rule bit_word_eqI) (auto simp add: bit_simps dest: bit_imp_le_length)

lemma key_b: "ucast (drop_bit 16 (templateColorKey a b g r)) = b"
  unfolding templateColorKey_def
  by (rule bit_word_eqI) (auto simp add: bit_simps dest: bit_imp_le_length)

lemma key_a: "ucast (drop_bit 24 (templateColorKey a b g r)) = a"
  unfolding templateColorKey_def
  by (rule bit_word_eqI) (auto simp add: bit_simps dest: bit_imp_le_length)

lemma templateColorKey_inj:
  assumes "templateColorKey a b g r = templateColorKey a' b' g' r'"
  shows "a = a' \<and> b = b' \<and> g = g' \<and> r = r'"
  using key_r[of a b g r] key_g[of a b g r] key_b[of a b g r] key_a[of a b g r]
        key_r[of a' b' g' r'] key_g[of a' b' g' r'] key_b[of a' b' g' r'] key_a[of a' b' g' r']
  unfolding assms by simp

lemma cacheConsistent_empty: "cacheConsistent Map.empty"
  by (simp add: cacheConsistent_def)

lemma cacheConsistent_new: "cacheConsistent (templateColorCache (newTemplateManager stored))"
  by (simp add: newTemplateManager_def cacheConsistent_empty)

lemma cacheConsistent_setAnalyzeTransparentPixels:
  "cacheConsistent (templateColorCache (setAnalyzeTransparentPixels v tm))
     = cacheConsistent (templateColorCache tm)"
  by (simp add: setAnalyzeTransparentPixels_def)

lemma cacheConsistent_update:
  assumes "cacheConsistent cache" "findClosestColor (rgbOf r g b) = Inr v"
  shows "cacheConsistent (cache(templateColorKey a b g r \<mapsto> v))"
  unfolding cacheConsistent_def
proof (intro allI impI)
  fix a' b' g' r' v'
  assume h: "(cache(templateColorKey a b g r \<mapsto> v)) (templateColorKey a' b' g' r') = Some v'"
  show "findClosestColor (rgbOf r' g' b') = Inr v'"
  proof (cases "templateColorKey a' b' g' r' = templateColorKey a b g r")
    case True
    then have "r' = r \<and> g' = g \<and> b' = b" using templateColorKey_inj by blast
    moreover have "v' = v" using h True by simp
    ultimately show ?thesis using assms(2) by simp
  next
    case False
    then have "cache (templateColorKey a' b' g' r') = Some v'" using h by simp
    then show ?thesis using assms(1) by (simp add: cacheConsistent_def)
  qed
qed

lemma cachedTargetColor_total:
  "\<exists>v cache'. cachedTargetColor cache key c = Inr (v, cache')"
  using findClosestColor_Inr[of c]
  by (auto simp: cachedTargetColor_def split: option.splits)

lemma cachedTargetColor_consistent:
  assumes "cacheConsistent cache"
    and "cachedTargetColor cache (templateColorKey a b g r) (rgbOf r g b) = Inr (v, cache')"
  shows "findClosestColor (rgbOf r g b) = Inr v \<and> cacheConsistent cache' \<and> cache \<subseteq>\<^sub>m cache'"
proof (cases "cache (templateColorKey a b g r)")
  case None
  then have v: "findClosestColor (rgbOf r g b) = Inr v"
    and c: "cache' = cache(templateColorKey a b g r \<mapsto> v)"
    using assms(2) by (auto simp: cachedTargetColor_def split: sum.splits)
  have "cache \<subseteq>\<^sub>m cache'" using None c by (auto simp: map_le_def)
  then show ?thesis using v c cacheConsistent_update[OF assms(1) v] by simp
next
  case (Some w)
  then have "v = w" "cache' = cache" using assms(2) by (auto simp: cachedTargetColor_def)
  then show ?thesis using Some assms(1) by (auto simp: cacheConsistent_def)
qed

lemma centerBonus_le: "centerBonus rect x y \<le> 500000"
proof -
  obtain minX minY maxX maxY where r: "rect = (minX, minY, maxX, maxY)" by (cases rect) auto
  show ?thesis
    unfolding r centerBonus_def Let_def
    by (simp add: divide_nonneg_pos)
qed

lemma centerBonus_ge:
  assumes "minX \<le> x" "real_of_int x < maxX" "minY \<le> y" "real_of_int y < maxY"
  shows "0 \<le> centerBonus (minX, minY, maxX, maxY) x y"
proof -
  define cx where "cx = real_of_int minX + (maxX - real_of_int minX) / 2"
  define cy where "cy = real_of_int minY + (maxY - real_of_int minY) / 2"
  have ax: "\<bar>real_of_int x - cx\<bar> \<le> \<bar>maxX - cx\<bar>" using assms(1,2) by (simp add: cx_def field_simps abs_if)
  have ay: "\<bar>real_of_int y - cy\<bar> \<le> \<bar>maxY - cy\<bar>" using assms(3,4) by (simp add: cy_def field_simps abs_if)
  have sx: "(real_of_int x - cx)\<^sup>2 \<le> (maxX - cx)\<^sup>2" using ax by (simp add: abs_le_square_iff)
  have sy: "(real_of_int y - cy)\<^sup>2 \<le> (maxY - cy)\<^sup>2" using ay by (simp add: abs_le_square_iff)
  have le: "sqrt ((real_of_int x - cx)\<^sup>2 + (real_of_int y - cy)\<^sup>2)
           \<le> sqrt ((maxX - cx)\<^sup>2 + (maxY - cy)\<^sup>2)"
    using sx sy by (simp add: add_mono)
  have "(if sqrt ((maxX - cx)\<^sup>2 + (maxY - cy)\<^sup>2) > 0
         then sqrt ((real_of_int x - cx)\<^sup>2 + (real_of_int y - cy)\<^sup>2) / sqrt ((maxX - cx)\<^sup>2 + (maxY - cy)\<^sup>2)
         else 0) \<le> 1"
    using le by simp
  then show ?thesis
    unfolding centerBonus_def Let_def cx_def cy_def by simp
qed



lemma findClosestColor_nearestId: "findClosestColor c = Inr (nearestId c)"
  using findClosestColor_Inr[of c] by (auto simp: nearestId_def)

lemma nearestId_pos: "1 \<le> nearestId c"
  using findClosestColor_Inr[of c] by (auto simp: nearestId_def)

lemma analyzePixel_grief:
  assumes "pixelTier tm g t x y = Some GriefClean"
  shows "analyzePixel tm dE g t tc rect x y cache =
           Inr (Some \<lparr>tileCoords = tc, pixelCoords = (x, y), colorId = 0, priority = 2000000\<rparr>, cache)"
  using assms
  by (auto simp: pixelTier_def analyzePixel_def inRaster_def sampleIndex_def alphaAt_def Let_def
           split: if_splits)

lemma analyzePixel_none:
  assumes "pixelTier tm g t x y = None"
  shows "analyzePixel tm dE g t tc rect x y cache = Inr (None, cache)"
  using assms
  by (auto simp: pixelTier_def analyzePixel_def inRaster_def sampleIndex_def alphaAt_def Let_def
           split: if_splits)

text \<open>The paint branch for any cache: what is pushed, in terms of the id the cache step yields.\<close>

lemma analyzePixel_paint_shape:
  assumes tier: "pixelTier tm g t x y = Some NewPlacement \<or> pixelTier tm g t x y = Some ColorCorrection"
  shows "\<exists>v cache'.
           cachedTargetColor cache
             (templateColorKey (t (nat (sampleIndex tm x y) + 3)) (t (nat (sampleIndex tm x y) + 2))
                (t (nat (sampleIndex tm x y) + 1)) (t (nat (sampleIndex tm x y))))
             (rgbAt tm t x y) = Inr (v, cache')
         \<and> analyzePixel tm dE g t tc rect x y cache =
             Inr (if pixelTier tm g t x y = Some NewPlacement
                  then Some \<lparr>tileCoords = tc, pixelCoords = (x, y), colorId = v,
                             priority = 1000000 + centerBonus rect x y\<rparr>
                  else if nearestId (rgbAt tm g x y) \<noteq> v
                  then Some \<lparr>tileCoords = tc, pixelCoords = (x, y), colorId = v,
                             priority = colorPriority (calculateColorDifference
                                          (dE (rgbAt tm g x y) (rgbAt tm t x y)))
                                        + centerBonus rect x y\<rparr>
                  else None, cache')"
proof -
  define i where "i = nat (sampleIndex tm x y)"
  have rng: "\<not> (sampleIndex tm x y < 0 \<or>
               int (tileSize tm * drawMult tm) * int (tileSize tm * drawMult tm) * 4 \<le> sampleIndex tm x y)"
    using tier by (auto simp: pixelTier_def inRaster_def split: if_splits)
  have ng: "\<not> (analyzeTransparentPixels tm \<and> unat (t (i + 3)) < 128 \<and> unat (g (i + 3)) > 0)"
    using tier by (auto simp: pixelTier_def alphaAt_def i_def split: if_splits)
  have ta: "unat (t (i + 3)) > 128"
    using tier by (auto simp: pixelTier_def alphaAt_def i_def split: if_splits)
  obtain v cache' where ct: "cachedTargetColor cache (templateColorKey (t (i + 3)) (t (i + 2)) (t (i + 1)) (t i))
                         (rgbOf (t i) (t (i + 1)) (t (i + 2))) = Inr (v, cache')"
    using cachedTargetColor_total by blast
  have tn: "pixelTier tm g t x y = (if unat (g (i + 3)) < 128 then Some NewPlacement else Some ColorCorrection)"
    using tier by (auto simp: pixelTier_def alphaAt_def i_def split: if_splits)
  have "analyzePixel tm dE g t tc rect x y cache =
             Inr (if pixelTier tm g t x y = Some NewPlacement
                  then Some \<lparr>tileCoords = tc, pixelCoords = (x, y), colorId = v,
                             priority = 1000000 + centerBonus rect x y\<rparr>
                  else if nearestId (rgbAt tm g x y) \<noteq> v
                  then Some \<lparr>tileCoords = tc, pixelCoords = (x, y), colorId = v,
                             priority = colorPriority (calculateColorDifference
                                          (dE (rgbAt tm g x y) (rgbAt tm t x y)))
                                        + centerBonus rect x y\<rparr>
                  else None, cache')"
    using rng ng ta ct
    unfolding analyzePixel_def tn Let_def sampleIndex_def[symmetric] i_def[symmetric]
    by (simp add: findClosestColor_nearestId rgbAt_def i_def[symmetric] Let_def)
  moreover have "cachedTargetColor cache
             (templateColorKey (t (nat (sampleIndex tm x y) + 3)) (t (nat (sampleIndex tm x y) + 2))
                (t (nat (sampleIndex tm x y) + 1)) (t (nat (sampleIndex tm x y))))
             (rgbAt tm t x y) = Inr (v, cache')"
    using ct by (simp add: rgbAt_def i_def Let_def)
  ultimately show ?thesis by blast
qed

lemma analyzePixel_paint:
  assumes tier: "pixelTier tm g t x y = Some NewPlacement \<or> pixelTier tm g t x y = Some ColorCorrection"
    and cons: "cacheConsistent cache"
  shows "\<exists>cache'. analyzePixel tm dE g t tc rect x y cache = Inr (expectedPixel tm dE g t tc rect x y, cache')
           \<and> cacheConsistent cache' \<and> cache \<subseteq>\<^sub>m cache'"
proof -
  from analyzePixel_paint_shape[OF tier, of cache dE tc rect]
  obtain v cache' where ct: "cachedTargetColor cache
             (templateColorKey (t (nat (sampleIndex tm x y) + 3)) (t (nat (sampleIndex tm x y) + 2))
                (t (nat (sampleIndex tm x y) + 1)) (t (nat (sampleIndex tm x y))))
             (rgbAt tm t x y) = Inr (v, cache')"
    and ap: "analyzePixel tm dE g t tc rect x y cache =
             Inr (if pixelTier tm g t x y = Some NewPlacement
                  then Some \<lparr>tileCoords = tc, pixelCoords = (x, y), colorId = v,
                             priority = 1000000 + centerBonus rect x y\<rparr>
                  else if nearestId (rgbAt tm g x y) \<noteq> v
                  then Some \<lparr>tileCoords = tc, pixelCoords = (x, y), colorId = v,
                             priority = colorPriority (calculateColorDifference
                                          (dE (rgbAt tm g x y) (rgbAt tm t x y)))
                                        + centerBonus rect x y\<rparr>
                  else None, cache')" by blast
  have r: "rgbAt tm t x y = rgbOf (t (nat (sampleIndex tm x y))) (t (nat (sampleIndex tm x y) + 1))
              (t (nat (sampleIndex tm x y) + 2))"
    by (simp add: rgbAt_def Let_def)
  from cachedTargetColor_consistent[OF cons ct[unfolded r]]
  have v: "findClosestColor (rgbAt tm t x y) = Inr v"
    and c': "cacheConsistent cache'" "cache \<subseteq>\<^sub>m cache'" unfolding r by auto
  have vn: "v = nearestId (rgbAt tm t x y)" using v by (simp add: nearestId_def)
  have "analyzePixel tm dE g t tc rect x y cache = Inr (expectedPixel tm dE g t tc rect x y, cache')"
    using tier unfolding ap expectedPixel_def vn by auto
  with c' show ?thesis by blast
qed

lemma analyzePixel_expected:
  assumes "cacheConsistent cache"
  shows "\<exists>cache'. analyzePixel tm dE g t tc rect x y cache = Inr (expectedPixel tm dE g t tc rect x y, cache')
           \<and> cacheConsistent cache' \<and> cache \<subseteq>\<^sub>m cache'"
proof (cases "pixelTier tm g t x y")
  case None
  then show ?thesis using assms analyzePixel_none[OF None] by (simp add: expectedPixel_def)
next
  case (Some a)
  then show ?thesis
  proof (cases a)
    case GriefClean
    then show ?thesis using Some assms analyzePixel_grief[of tm g t x y] by (simp add: expectedPixel_def)
  next
    case NewPlacement
    then show ?thesis using Some assms analyzePixel_paint by blast
  next
    case ColorCorrection
    then show ?thesis using Some assms analyzePixel_paint by blast
  qed
qed



lemma cachedTargetColor_not_Inl: "cachedTargetColor cache key c \<noteq> Inl e"
  using cachedTargetColor_total[of cache key c] by auto

lemma analyzePixel_total:
  "\<exists>pd cache'. analyzePixel tm dE g t tc rect x y cache = Inr (pd, cache')
       \<and> (\<forall>c. pd = Some c \<longrightarrow> pixelCoords c = (x, y) \<and> tileCoords c = tc)"
proof (cases "pixelTier tm g t x y")
  case None
  then show ?thesis using analyzePixel_none[OF None] by simp
next
  case (Some a)
  show ?thesis
  proof (cases "a = GriefClean")
    case True
    then show ?thesis using Some analyzePixel_grief[of tm g t x y] by simp
  next
    case False
    then have "pixelTier tm g t x y = Some NewPlacement \<or> pixelTier tm g t x y = Some ColorCorrection"
      using Some by (cases a) auto
    from analyzePixel_paint_shape[OF this, of cache dE tc rect]
    obtain v cache' where ap: "analyzePixel tm dE g t tc rect x y cache =
      Inr (if pixelTier tm g t x y = Some NewPlacement
           then Some \<lparr>tileCoords = tc, pixelCoords = (x, y), colorId = v,
                      priority = 1000000 + centerBonus rect x y\<rparr>
           else if nearestId (rgbAt tm g x y) \<noteq> v
           then Some \<lparr>tileCoords = tc, pixelCoords = (x, y), colorId = v,
                      priority = colorPriority (calculateColorDifference
                                   (dE (rgbAt tm g x y) (rgbAt tm t x y)))
                                 + centerBonus rect x y\<rparr>
           else None, cache')" by blast
    define E where "E = (if pixelTier tm g t x y = Some NewPlacement
           then Some \<lparr>tileCoords = tc, pixelCoords = (x, y), colorId = v,
                      priority = 1000000 + centerBonus rect x y\<rparr>
           else if nearestId (rgbAt tm g x y) \<noteq> v
           then Some \<lparr>tileCoords = tc, pixelCoords = (x, y), colorId = v,
                      priority = colorPriority (calculateColorDifference
                                   (dE (rgbAt tm g x y) (rgbAt tm t x y)))
                                 + centerBonus rect x y\<rparr>
           else None)"
    have ap: "analyzePixel tm dE g t tc rect x y cache = Inr (E, cache')"
      using ap unfolding E_def .
    have "\<forall>c. E = Some c \<longrightarrow> pixelCoords c = (x, y) \<and> tileCoords c = tc"
      unfolding E_def by simp
    with ap show ?thesis by blast
  qed
qed

lemma analyzePixels_total:
  "\<exists>out cache'. analyzePixels tm dE g t tc rect coords cache = Inr (out, cache')
       \<and> (\<forall>c \<in> set out. pixelCoords c \<in> set coords \<and> tileCoords c = tc)"
proof (induction coords arbitrary: cache)
  case Nil
  then show ?case by simp
next
  case (Cons p coords)
  obtain x y where p: "p = (x, y)" by (cases p) auto
  from analyzePixel_total[of tm dE g t tc rect x y cache]
  obtain pd c1 where a: "analyzePixel tm dE g t tc rect x y cache = Inr (pd, c1)"
    "\<forall>c. pd = Some c \<longrightarrow> pixelCoords c = (x, y) \<and> tileCoords c = tc" by blast
  from Cons.IH[of c1]
  obtain out c2 where b: "analyzePixels tm dE g t tc rect coords c1 = Inr (out, c2)"
    "\<forall>c \<in> set out. pixelCoords c \<in> set coords \<and> tileCoords c = tc" by blast
  have "analyzePixels tm dE g t tc rect (p # coords) cache
          = Inr ((case pd of None \<Rightarrow> out | Some q \<Rightarrow> q # out), c2)"
    using a(1) b(1) p by simp
  moreover have "\<forall>c \<in> set (case pd of None \<Rightarrow> out | Some q \<Rightarrow> q # out).
                   pixelCoords c \<in> set (p # coords) \<and> tileCoords c = tc"
    using a(2) b(2) p by (cases pd) auto
  ultimately show ?case by blast
qed


text \<open>The candidates pushed for one visited pixel, read off the result of the whole pass.\<close>

lemma analyzePixels_at:
  assumes "analyzePixels tm dE g t tc rect coords cache = Inr (out, cache')"
    and "distinct coords" and "(x, y) \<in> set coords"
  shows "\<exists>c0 c1 pd. analyzePixel tm dE g t tc rect x y c0 = Inr (pd, c1)
           \<and> filter (\<lambda>c. pixelCoords c = (x, y)) out = (case pd of None \<Rightarrow> [] | Some p \<Rightarrow> [p])
           \<and> (cacheConsistent cache \<longrightarrow> cacheConsistent c0)"
  using assms
proof (induction coords arbitrary: cache out cache')
  case Nil
  then show ?case by simp
next
  case (Cons p coords)
  obtain x' y' where p: "p = (x', y')" by (cases p) auto
  from analyzePixel_total[of tm dE g t tc rect x' y' cache]
  obtain pd c1 where a: "analyzePixel tm dE g t tc rect x' y' cache = Inr (pd, c1)"
    "\<forall>c. pd = Some c \<longrightarrow> pixelCoords c = (x', y') \<and> tileCoords c = tc" by blast
  from analyzePixels_total[of tm dE g t tc rect coords c1]
  obtain out' c2 where b: "analyzePixels tm dE g t tc rect coords c1 = Inr (out', c2)"
    "\<forall>c \<in> set out'. pixelCoords c \<in> set coords \<and> tileCoords c = tc" by blast
  have out: "out = (case pd of None \<Rightarrow> out' | Some q \<Rightarrow> q # out')"
    using Cons.prems(1) a(1) b(1) p by simp
  have c1: "cacheConsistent cache \<longrightarrow> cacheConsistent c1"
    using analyzePixel_expected[of cache tm dE g t tc rect x' y'] a(1) by auto
  show ?case
  proof (cases "(x, y) = (x', y')")
    case True
    then have "(x, y) \<notin> set coords" using Cons.prems(2) p by simp
    then have "filter (\<lambda>c. pixelCoords c = (x, y)) out' = []"
      using b(2) by (auto simp: filter_empty_conv)
    then have "filter (\<lambda>c. pixelCoords c = (x, y)) out = (case pd of None \<Rightarrow> [] | Some q \<Rightarrow> [q])"
      using out a(2) True by (auto split: option.splits)
    then show ?thesis using a(1) True by blast
  next
    case False
    then have mem: "(x, y) \<in> set coords" using Cons.prems(3) p by auto
    have d: "distinct coords" using Cons.prems(2) by simp
    from Cons.IH[OF b(1) d mem]
    obtain c0 c1' pd' where ih: "analyzePixel tm dE g t tc rect x y c0 = Inr (pd', c1')"
       "filter (\<lambda>c. pixelCoords c = (x, y)) out' = (case pd' of None \<Rightarrow> [] | Some p \<Rightarrow> [p])"
       "cacheConsistent c1 \<longrightarrow> cacheConsistent c0" by blast
    have "filter (\<lambda>c. pixelCoords c = (x, y)) out = filter (\<lambda>c. pixelCoords c = (x, y)) out'"
      using out a(2) False by (auto split: option.splits)
    then show ?thesis using ih c1 by auto
  qed
qed

lemma analyzePixels_from:
  assumes "analyzePixels tm dE g t tc rect coords cache = Inr (out, cache')"
    and "c \<in> set out"
  shows "\<exists>x y c0 c1. (x, y) \<in> set coords \<and> analyzePixel tm dE g t tc rect x y c0 = Inr (Some c, c1)
           \<and> (cacheConsistent cache \<longrightarrow> cacheConsistent c0)"
  using assms
proof (induction coords arbitrary: cache out cache')
  case Nil
  then show ?case by simp
next
  case (Cons p coords)
  obtain x' y' where p: "p = (x', y')" by (cases p) auto
  from analyzePixel_total[of tm dE g t tc rect x' y' cache]
  obtain pd c1 where a: "analyzePixel tm dE g t tc rect x' y' cache = Inr (pd, c1)" by blast
  from analyzePixels_total[of tm dE g t tc rect coords c1]
  obtain out' c2 where b: "analyzePixels tm dE g t tc rect coords c1 = Inr (out', c2)" by blast
  have out: "out = (case pd of None \<Rightarrow> out' | Some q \<Rightarrow> q # out')"
    using Cons.prems(1) a(1) b(1) p by simp
  have c1: "cacheConsistent cache \<longrightarrow> cacheConsistent c1"
    using analyzePixel_expected[of cache tm dE g t tc rect x' y'] a(1) by auto
  show ?case
  proof (cases "pd = Some c")
    case True
    then show ?thesis using a p by (intro exI[of _ x'] exI[of _ y'] exI[of _ cache] exI[of _ c1]) simp
  next
    case False
    then have "c \<in> set out'" using out Cons.prems(2) by (auto split: option.splits)
    from Cons.IH[OF b this] c1 show ?thesis by auto
  qed
qed

lemma analyzePixels_consistent:
  assumes "analyzePixels tm dE g t tc rect coords cache = Inr (out, cache')" "cacheConsistent cache"
  shows "cacheConsistent cache' \<and> cache \<subseteq>\<^sub>m cache'"
  using assms
proof (induction coords arbitrary: cache out cache')
  case Nil
  then show ?case by simp
next
  case (Cons p coords)
  obtain x' y' where p: "p = (x', y')" by (cases p) auto
  from analyzePixel_expected[OF Cons.prems(2), of tm dE g t tc rect x' y']
  obtain c1 where a: "analyzePixel tm dE g t tc rect x' y' cache = Inr (expectedPixel tm dE g t tc rect x' y', c1)"
     "cacheConsistent c1" "cache \<subseteq>\<^sub>m c1" by blast
  from analyzePixels_total[of tm dE g t tc rect coords c1]
  obtain out' c2 where b: "analyzePixels tm dE g t tc rect coords c1 = Inr (out', c2)" by blast
  have "cache' = c2" "out' = out'" using Cons.prems(1) a(1) b p by (auto split: option.splits)
  with Cons.IH[OF b a(2)] a(3) show ?case using map_le_trans by blast
qed



lemma grid_mem:
  "(x, y) \<in> set (concat (map (\<lambda>y. map (\<lambda>x. (x, y)) xs) ys)) \<longleftrightarrow> x \<in> set xs \<and> y \<in> set ys"
  by (induction ys) auto

lemma grid_distinct:
  "distinct xs \<Longrightarrow> distinct ys \<Longrightarrow> distinct (concat (map (\<lambda>y. map (\<lambda>x. (x, y)) xs) ys))"
  by (induction ys) (auto simp: distinct_map inj_on_def)

lemma loopCoords_mem:
  "(x, y) \<in> set (loopCoords (minX, minY, maxX, maxY))
     \<longleftrightarrow> minX \<le> x \<and> real_of_int x < maxX \<and> minY \<le> y \<and> real_of_int y < maxY"
proof -
  have "x \<le> \<lceil>maxX\<rceil> - 1 \<longleftrightarrow> real_of_int x < maxX" "y \<le> \<lceil>maxY\<rceil> - 1 \<longleftrightarrow> real_of_int y < maxY"
    using less_ceiling_iff[of x maxX] less_ceiling_iff[of y maxY] by auto
  moreover have "(x, y) \<in> set (loopCoords (minX, minY, maxX, maxY))
     \<longleftrightarrow> x \<in> set [minX .. \<lceil>maxX\<rceil> - 1] \<and> y \<in> set [minY .. \<lceil>maxY\<rceil> - 1]"
    unfolding loopCoords_def prod.case by (rule grid_mem)
  ultimately show ?thesis by auto
qed

lemma loopCoords_distinct: "distinct (loopCoords rect)"
proof -
  obtain minX minY maxX maxY where r: "rect = (minX, minY, maxX, maxY)" by (cases rect) auto
  show ?thesis unfolding r loopCoords_def by (simp add: grid_distinct)
qed

lemma analyzeTile_pixels:
  assumes "templatesToDraw \<noteq> []"
  shows "\<exists>out cache'.
           analyzePixels tm dE g t tc (tileRect tm templatesToDraw)
             (loopCoords (tileRect tm templatesToDraw)) (templateColorCache tm) = Inr (out, cache')
         \<and> analyzeTile tm dE (Some g) t templatesToDraw tc
             = Inr (out, tm\<lparr>templateColorCache := cache'\<rparr>)"
proof -
  from analyzePixels_total[of tm dE g t tc "tileRect tm templatesToDraw"
         "loopCoords (tileRect tm templatesToDraw)" "templateColorCache tm"]
  obtain out cache' where a: "analyzePixels tm dE g t tc (tileRect tm templatesToDraw)
             (loopCoords (tileRect tm templatesToDraw)) (templateColorCache tm) = Inr (out, cache')" by blast
  then have "analyzeTile tm dE (Some g) t templatesToDraw tc
             = Inr (out, tm\<lparr>templateColorCache := cache'\<rparr>)"
    using assms by (simp add: analyzeTile_def tileRect_def Let_def)
  with a show ?thesis by blast
qed

lemma colorPriority_le: "colorPriority d \<le> 500000"
  by (simp add: colorPriority_def min_def)

lemma centerBonus_visited:
  assumes "(x, y) \<in> set (loopCoords rect)"
  shows "0 \<le> centerBonus rect x y \<and> centerBonus rect x y \<le> 500000"
proof -
  obtain minX minY maxX maxY where r: "rect = (minX, minY, maxX, maxY)" by (cases rect) auto
  from assms have "minX \<le> x \<and> real_of_int x < maxX \<and> minY \<le> y \<and> real_of_int y < maxY"
    unfolding r loopCoords_mem .
  then show ?thesis using centerBonus_ge[of minX x maxX minY y maxY] centerBonus_le[of rect x y]
    unfolding r by simp
qed

lemma pixelTier_GriefClean:
  "inRaster tm x y \<Longrightarrow> analyzeTransparentPixels tm \<Longrightarrow> alphaAt tm t x y < 128
     \<Longrightarrow> alphaAt tm g x y > 0 \<Longrightarrow> pixelTier tm g t x y = Some GriefClean"
  by (simp add: pixelTier_def)

lemma pixelTier_NewPlacement:
  "inRaster tm x y \<Longrightarrow> alphaAt tm t x y > 128 \<Longrightarrow> alphaAt tm g x y < 128
     \<Longrightarrow> pixelTier tm g t x y = Some NewPlacement"
  by (simp add: pixelTier_def)



lemma analyzePixel_priority:
  assumes "analyzePixel tm dE g t tc rect x y c0 = Inr (Some c, c1)"
  shows "pixelCoords c = (x, y) \<and>
     (case pixelTier tm g t x y of
        None \<Rightarrow> False
      | Some GriefClean \<Rightarrow> priority c = 2000000
      | Some NewPlacement \<Rightarrow> priority c = 1000000 + centerBonus rect x y
      | Some ColorCorrection \<Rightarrow>
          priority c = colorPriority (calculateColorDifference (dE (rgbAt tm g x y) (rgbAt tm t x y)))
                       + centerBonus rect x y)"
proof (cases "pixelTier tm g t x y")
  case None
  then show ?thesis using analyzePixel_none[OF None, of dE tc rect c0] assms by simp
next
  case (Some a)
  show ?thesis
  proof (cases "a = GriefClean")
    case True
    then show ?thesis using Some analyzePixel_grief[of tm g t x y dE tc rect c0] assms by auto
  next
    case False
    then have tier: "pixelTier tm g t x y = Some NewPlacement \<or> pixelTier tm g t x y = Some ColorCorrection"
      using Some by (cases a) auto
    from analyzePixel_paint_shape[OF tier, of c0 dE tc rect]
    obtain v cache' where ap: "analyzePixel tm dE g t tc rect x y c0 =
      Inr (if pixelTier tm g t x y = Some NewPlacement
           then Some \<lparr>tileCoords = tc, pixelCoords = (x, y), colorId = v,
                      priority = 1000000 + centerBonus rect x y\<rparr>
           else if nearestId (rgbAt tm g x y) \<noteq> v
           then Some \<lparr>tileCoords = tc, pixelCoords = (x, y), colorId = v,
                      priority = colorPriority (calculateColorDifference
                                   (dE (rgbAt tm g x y) (rgbAt tm t x y)))
                                 + centerBonus rect x y\<rparr>
           else None, cache')" by blast
    from tier show ?thesis
    proof
      assume n: "pixelTier tm g t x y = Some NewPlacement"
      then show ?thesis using ap assms by auto
    next
      assume n: "pixelTier tm g t x y = Some ColorCorrection"
      then show ?thesis using ap assms by (auto split: if_splits)
    qed
  qed
qed



lemma analyzeTile_visited:
  assumes "templatesToDraw \<noteq> []"
    and "(x, y) \<in> set (loopCoords (tileRect tm templatesToDraw))"
    and "cacheConsistent (templateColorCache tm)"
  shows "\<exists>out tm'. analyzeTile tm dE (Some g) t templatesToDraw tc = Inr (out, tm')
           \<and> filter (\<lambda>c. pixelCoords c = (x, y)) out
               = (case expectedPixel tm dE g t tc (tileRect tm templatesToDraw) x y of
                    None \<Rightarrow> [] | Some p \<Rightarrow> [p])"
proof -
  from analyzeTile_pixels[OF assms(1), of tm dE g t tc]
  obtain out cache' where
    px: "analyzePixels tm dE g t tc (tileRect tm templatesToDraw)
             (loopCoords (tileRect tm templatesToDraw)) (templateColorCache tm) = Inr (out, cache')"
    and at: "analyzeTile tm dE (Some g) t templatesToDraw tc
             = Inr (out, tm\<lparr>templateColorCache := cache'\<rparr>)" by blast
  from analyzePixels_at[OF px loopCoords_distinct assms(2)] assms(3)
  obtain c0 c1 pd where
    ap: "analyzePixel tm dE g t tc (tileRect tm templatesToDraw) x y c0 = Inr (pd, c1)"
    and f: "filter (\<lambda>c. pixelCoords c = (x, y)) out = (case pd of None \<Rightarrow> [] | Some p \<Rightarrow> [p])"
    and c0: "cacheConsistent c0"
    by blast
  from analyzePixel_expected[OF c0, of tm dE g t tc "tileRect tm templatesToDraw" x y] ap
  have "pd = expectedPixel tm dE g t tc (tileRect tm templatesToDraw) x y" by auto
  with f at show ?thesis by simp
qed



lemma cachedTargetColor_stores:
  "cachedTargetColor cache key c = Inr (v, cache') \<Longrightarrow> cache' key = Some v"
  by (auto simp: cachedTargetColor_def split: option.splits sum.splits)

lemma analyzePixel_paint_stores:
  assumes tier: "pixelTier tm g t x y = Some NewPlacement \<or> pixelTier tm g t x y = Some ColorCorrection"
    and cons: "cacheConsistent cache"
    and ap: "analyzePixel tm dE g t tc rect x y cache = Inr (pd, cache')"
  shows "cache' (pixelKey tm t x y) = Some (nearestId (rgbAt tm t x y))"
proof -
  from analyzePixel_paint_shape[OF tier, of cache dE tc rect] ap
  obtain v where ct: "cachedTargetColor cache
             (templateColorKey (t (nat (sampleIndex tm x y) + 3)) (t (nat (sampleIndex tm x y) + 2))
                (t (nat (sampleIndex tm x y) + 1)) (t (nat (sampleIndex tm x y))))
             (rgbAt tm t x y) = Inr (v, cache')" by auto
  have r: "rgbAt tm t x y = rgbOf (t (nat (sampleIndex tm x y))) (t (nat (sampleIndex tm x y) + 1))
              (t (nat (sampleIndex tm x y) + 2))"
    by (simp add: rgbAt_def Let_def)
  from cachedTargetColor_consistent[OF cons ct[unfolded r]]
  have "findClosestColor (rgbAt tm t x y) = Inr v" unfolding r by simp
  then have "v = nearestId (rgbAt tm t x y)" by (simp add: nearestId_def)
  with cachedTargetColor_stores[OF ct] show ?thesis by (simp add: pixelKey_def Let_def)
qed

lemma analyzePixels_stores:
  assumes "analyzePixels tm dE g t tc rect coords cache = Inr (out, cache')"
    and "cacheConsistent cache" and "(x, y) \<in> set coords"
    and "pixelTier tm g t x y = Some NewPlacement \<or> pixelTier tm g t x y = Some ColorCorrection"
  shows "cache' (pixelKey tm t x y) = Some (nearestId (rgbAt tm t x y))"
  using assms(1-3)
proof (induction coords arbitrary: cache out cache')
  case Nil
  then show ?case by simp
next
  case (Cons p coords)
  obtain x' y' where p: "p = (x', y')" by (cases p) auto
  from analyzePixel_expected[OF Cons.prems(2), of tm dE g t tc rect x' y']
  obtain c1 where a: "analyzePixel tm dE g t tc rect x' y' cache = Inr (expectedPixel tm dE g t tc rect x' y', c1)"
     "cacheConsistent c1" by blast
  from analyzePixels_total[of tm dE g t tc rect coords c1]
  obtain out' c2 where b: "analyzePixels tm dE g t tc rect coords c1 = Inr (out', c2)" by blast
  have c2: "cache' = c2" using Cons.prems(1) a(1) b p by (auto split: option.splits)
  show ?case
  proof (cases "(x, y) \<in> set coords")
    case True
    from Cons.IH[OF b a(2) True] c2 show ?thesis by simp
  next
    case False
    then have "(x, y) = (x', y')" using Cons.prems(3) p by auto
    then have "c1 (pixelKey tm t x y) = Some (nearestId (rgbAt tm t x y))"
      using analyzePixel_paint_stores[OF assms(4) Cons.prems(2), of dE tc rect] a(1) by simp
    moreover have "c1 \<subseteq>\<^sub>m c2" using analyzePixels_consistent[OF b a(2)] by simp
    ultimately show ?thesis unfolding c2 by (auto simp: map_le_def dom_def)
  qed
qed

lemma fcc_white: "nearestId (255, 255, 255) = 5"
  by (simp add: nearestId_def findClosestColor_def findClosestColorSt_def initializePalettes_fresh
        paletteRGBs_def colorpalette_def)



lemma colorPriority_mono: "d1 \<le> d2 \<Longrightarrow> colorPriority (calculateColorDifference d1) \<le> colorPriority (calculateColorDifference d2)"
  unfolding colorPriority_def calculateColorDifference_def min_def
  by simp

lemma colorPriority_strict:
  "d1 < d2 \<Longrightarrow> colorPriority (calculateColorDifference d1) < 500000
     \<Longrightarrow> colorPriority (calculateColorDifference d1) < colorPriority (calculateColorDifference d2)"
  unfolding colorPriority_def calculateColorDifference_def min_def
  by (simp split: if_splits)



lemma fcc_black: "nearestId (0, 0, 0) = 1"
  by (simp add: nearestId_def findClosestColor_def findClosestColorSt_def initializePalettes_fresh
        paletteRGBs_def colorpalette_def)

lemma fcc_pure_red: "nearestId (255, 0, 0) = 7"
  by (simp add: nearestId_def findClosestColor_def findClosestColorSt_def initializePalettes_fresh
        paletteRGBs_def colorpalette_def)

section \<open>Bounds on the perceptual colour difference\<close>

lemma rgbToLab_black: "rgbToLab 0 0 0 = (0, 0, 0)"
  by (simp add: rgbToLab_def rgbToXyz_def xyzToLab_def)

lemma sL_bounds:
  fixes d :: real
  shows "1 \<le> 1 + (0.015 * d ^ 2) / sqrt (20 + d ^ 2)"
    and "1 + (0.015 * d ^ 2) / sqrt (20 + d ^ 2) \<le> 1 + 0.015 * \<bar>d\<bar>"
proof -
  have p: "0 < sqrt (20 + d ^ 2)" by (simp add: add_pos_nonneg)
  then show "1 \<le> 1 + (0.015 * d ^ 2) / sqrt (20 + d ^ 2)" by simp
  have "\<bar>d\<bar> = sqrt (d ^ 2)" by simp
  also have "\<dots> \<le> sqrt (20 + d ^ 2)" by (rule real_sqrt_le_mono) simp
  finally have "\<bar>d\<bar> \<le> sqrt (20 + d ^ 2)" .
  then have "\<bar>d\<bar> * \<bar>d\<bar> \<le> \<bar>d\<bar> * sqrt (20 + d ^ 2)" by (rule mult_left_mono) simp
  then have "d ^ 2 \<le> \<bar>d\<bar> * sqrt (20 + d ^ 2)" by (simp add: power2_eq_square)
  then have "d ^ 2 / sqrt (20 + d ^ 2) \<le> \<bar>d\<bar>" using p by (simp add: pos_divide_le_eq)
  then show "1 + (0.015 * d ^ 2) / sqrt (20 + d ^ 2) \<le> 1 + 0.015 * \<bar>d\<bar>" by simp
qed

lemma g_bounds:
  fixes c :: real
  assumes "0 \<le> c"
  shows "0 \<le> 0.5 * (1 - sqrt (c ^ 7 / (c ^ 7 + POW25_7)))"
    and "0.5 * (1 - sqrt (c ^ 7 / (c ^ 7 + POW25_7))) \<le> 1 / 2"
proof -
  have c7: "0 \<le> c ^ 7" using assms by simp
  have P: "0 < POW25_7" by (simp add: POW25_7_def)
  have q0: "0 \<le> c ^ 7 / (c ^ 7 + POW25_7)" using c7 P by simp
  have pos: "0 < c ^ 7 + POW25_7" using c7 P by linarith
  have q1: "c ^ 7 / (c ^ 7 + POW25_7) \<le> 1" using pos P by (simp add: divide_le_eq_1_pos)
  have s0: "0 \<le> sqrt (c ^ 7 / (c ^ 7 + POW25_7))" using q0 by simp
  have s1: "sqrt (c ^ 7 / (c ^ 7 + POW25_7)) \<le> 1" using q1 by simp
  show "0 \<le> 0.5 * (1 - sqrt (c ^ 7 / (c ^ 7 + POW25_7)))" using s1 by simp
  show "0.5 * (1 - sqrt (c ^ 7 / (c ^ 7 + POW25_7))) \<le> 1 / 2" using s0 by simp
qed

text \<open>
  From black, whose LAB coordinates are all zero, the hue terms vanish and the
  distance is the root of the squared lightness and chroma terms.
\<close>

lemma ciede2000_from_black:
  "\<exists>g sL sC. 0 \<le> g \<and> g \<le> 1 / 2 \<and> 1 \<le> sC
     \<and> sL = 1 + (0.015 * (l2 / 2 - 50) ^ 2) / sqrt (20 + (l2 / 2 - 50) ^ 2)
     \<and> ciede2000 (0, 0, 0) (l2, a2, b2)
         = sqrt ((l2 / sL) ^ 2 + (sqrt (((1 + g) * a2) ^ 2 + b2 ^ 2) / sC) ^ 2)"
proof -
  define c2 where "c2 = sqrt (a2 * a2 + b2 * b2)"
  define g where "g = 0.5 * (1 - sqrt ((c2 / 2) ^ 7 / ((c2 / 2) ^ 7 + POW25_7)))"
  define c2P where "c2P = sqrt (((1 + g) * a2) * ((1 + g) * a2) + b2 * b2)"
  define sC where "sC = 1 + 0.045 * (c2P / 2)"
  define sL where "sL = 1 + (0.015 * (l2 / 2 - 50) ^ 2) / sqrt (20 + (l2 / 2 - 50) ^ 2)"
  have c2: "0 \<le> c2" unfolding c2_def by simp
  have g: "0 \<le> g" "g \<le> 1 / 2" unfolding g_def using g_bounds[of "c2 / 2"] c2 by simp_all
  have c2P: "0 \<le> c2P" unfolding c2P_def by simp
  have sC: "1 \<le> sC" unfolding sC_def using c2P by simp
  have "ciede2000 (0, 0, 0) (l2, a2, b2) = sqrt ((l2 / sL) * (l2 / sL) + (c2P / sC) * (c2P / sC))"
    unfolding ciede2000_def Let_def sL_def sC_def c2P_def g_def c2_def K_L_def K_C_def K_H_def
    by simp
  then have "ciede2000 (0, 0, 0) (l2, a2, b2)
         = sqrt ((l2 / sL) ^ 2 + (sqrt (((1 + g) * a2) ^ 2 + b2 ^ 2) / sC) ^ 2)"
    unfolding c2P_def power2_eq_square .
  with g sC sL_def show ?thesis by blast
qed

lemma ciede2000_from_black_lower:
  assumes "0 \<le> l2"
  shows "l2 / (1 + 0.015 * \<bar>l2 / 2 - 50\<bar>) \<le> ciede2000 (0, 0, 0) (l2, a2, b2)"
proof -
  from ciede2000_from_black[of l2 a2 b2] obtain g sL sC where
    sL: "sL = 1 + (0.015 * (l2 / 2 - 50) ^ 2) / sqrt (20 + (l2 / 2 - 50) ^ 2)" and
    e: "ciede2000 (0, 0, 0) (l2, a2, b2)
          = sqrt ((l2 / sL) ^ 2 + (sqrt (((1 + g) * a2) ^ 2 + b2 ^ 2) / sC) ^ 2)" by blast
  have s: "1 \<le> sL" "sL \<le> 1 + 0.015 * \<bar>l2 / 2 - 50\<bar>" unfolding sL by (rule sL_bounds)+
  have p: "0 < sL" using s(1) by linarith
  have "l2 / (1 + 0.015 * \<bar>l2 / 2 - 50\<bar>) \<le> l2 / sL"
    using assms order_refl p s(2) by (rule frac_le)
  also have "\<dots> \<le> sqrt ((l2 / sL) ^ 2 + (sqrt (((1 + g) * a2) ^ 2 + b2 ^ 2) / sC) ^ 2)"
    by (rule real_sqrt_sum_squares_ge1)
  finally show ?thesis unfolding e .
qed

lemma ciede2000_from_black_upper:
  "ciede2000 (0, 0, 0) (l2, a2, b2) \<le> \<bar>l2\<bar> + 3 / 2 * \<bar>a2\<bar> + \<bar>b2\<bar>"
proof -
  from ciede2000_from_black[of l2 a2 b2] obtain g sL sC where
    g: "0 \<le> g" "g \<le> 1 / 2" and sC: "1 \<le> sC" and
    sL: "sL = 1 + (0.015 * (l2 / 2 - 50) ^ 2) / sqrt (20 + (l2 / 2 - 50) ^ 2)" and
    e: "ciede2000 (0, 0, 0) (l2, a2, b2)
          = sqrt ((l2 / sL) ^ 2 + (sqrt (((1 + g) * a2) ^ 2 + b2 ^ 2) / sC) ^ 2)" by blast
  define c where "c = sqrt (((1 + g) * a2) ^ 2 + b2 ^ 2)"
  have s: "1 \<le> sL" unfolding sL by (rule sL_bounds)
  have c0: "0 \<le> c" unfolding c_def by simp
  have "sqrt ((l2 / sL) ^ 2 + (c / sC) ^ 2) \<le> \<bar>l2 / sL\<bar> + \<bar>c / sC\<bar>"
    by (rule sqrt_sum_squares_le_sum_abs)
  moreover have "\<bar>l2 / sL\<bar> \<le> \<bar>l2\<bar>"
  proof -
    have a: "\<bar>l2\<bar> / sL \<le> \<bar>l2\<bar> / 1" by (rule frac_le) (use s in simp_all)
    have as: "\<bar>sL\<bar> = sL" using s by simp
    have b: "\<bar>l2 / sL\<bar> = \<bar>l2\<bar> / sL" unfolding abs_divide as ..
    show ?thesis unfolding b using a by simp
  qed
  moreover have "\<bar>c / sC\<bar> \<le> 3 / 2 * \<bar>a2\<bar> + \<bar>b2\<bar>"
  proof -
    have "c / sC \<le> c / 1" by (rule frac_le) (use sC c0 in simp_all)
    moreover have "0 \<le> c / sC" using sC c0 by simp
    then have "\<bar>c / sC\<bar> = c / sC" by (rule abs_of_nonneg)
    moreover have "c \<le> \<bar>(1 + g) * a2\<bar> + \<bar>b2\<bar>"
      unfolding c_def by (rule sqrt_sum_squares_le_sum_abs)
    moreover have "\<bar>(1 + g) * a2\<bar> = (1 + g) * \<bar>a2\<bar>" using g by (simp add: abs_mult)
    moreover have "(1 + g) * \<bar>a2\<bar> \<le> 3 / 2 * \<bar>a2\<bar>" using g by (intro mult_right_mono) simp_all
    ultimately show ?thesis by simp
  qed
  ultimately show ?thesis unfolding e c_def[symmetric] by linarith
qed

subsection \<open>Greys\<close>

text \<open>The rows of the conversion matrix add up to these factors of the reference white.\<close>

lemma xyz_row_sums:
  fixes u :: real
  shows "(u * 100 * 0.4124564 + u * 100 * 0.3575761 + u * 100 * 0.1804375) / 95.047 = u"
    and "(u * 100 * 0.2126729 + u * 100 * 0.7151522 + u * 100 * 0.0721750) / 100.000 = u * 1.0000001"
    and "(u * 100 * 0.0193339 + u * 100 * 0.1191920 + u * 100 * 0.9503041) / 108.883 = u"
  by simp_all

lemma rgbToLab_gray:
  assumes "0.04045 < v / 255"
    and "lin = ((v / 255 + 0.055) / 1.055) powr 2.4"
    and "0.008856 < lin"
  shows "rgbToLab v v v
           = (116 * (lin * 1.0000001) powr (1 / 3) - 16,
              500 * (lin powr (1 / 3) - (lin * 1.0000001) powr (1 / 3)),
              200 * ((lin * 1.0000001) powr (1 / 3) - lin powr (1 / 3)))"
proof -
  have xyz: "rgbToXyz v v v
               = (lin * 100 * 0.4124564 + lin * 100 * 0.3575761 + lin * 100 * 0.1804375,
                  lin * 100 * 0.2126729 + lin * 100 * 0.7151522 + lin * 100 * 0.0721750,
                  lin * 100 * 0.0193339 + lin * 100 * 0.1191920 + lin * 100 * 0.9503041)"
    unfolding rgbToXyz_def Let_def assms(2) using assms(1) by simp
  have b: "0.008856 < lin * 1.0000001" using assms(3) by simp
  show ?thesis
    unfolding rgbToLab_def xyz prod.case xyzToLab_def Let_def xyz_row_sums
    using assms(3) b by simp
qed

lemma cube_powr:
  fixes c :: real
  assumes "0 \<le> c"
  shows "(c ^ 3) powr (1 / 3) = c"
proof (cases "c = 0")
  case True
  then show ?thesis by simp
next
  case False
  then have p: "0 < c" using assms by simp
  then have e: "c ^ 3 = c powr 3" by (simp add: powr_numeral)
  have "(c powr 3) powr (1 / 3) = c powr (3 * (1 / 3))" by (rule powr_powr)
  also have "\<dots> = c" using p by simp
  finally have "(c powr 3) powr (1 / 3) = c" .
  then show ?thesis by (simp only: e)
qed

lemma cube_root_le:
  fixes x c :: real
  assumes "0 \<le> x" "0 \<le> c" "x \<le> c ^ 3"
  shows "x powr (1 / 3) \<le> c"
proof -
  have "x powr (1 / 3) \<le> (c ^ 3) powr (1 / 3)" using assms(1,3) by (intro powr_mono2) simp_all
  then show ?thesis unfolding cube_powr[OF assms(2)] .
qed

lemma cube_root_ge:
  fixes x c :: real
  assumes "0 \<le> c" "c ^ 3 \<le> x"
  shows "c \<le> x powr (1 / 3)"
proof -
  have "(c ^ 3) powr (1 / 3) \<le> x powr (1 / 3)" using assms by (intro powr_mono2) simp_all
  then show ?thesis unfolding cube_powr[OF assms(1)] .
qed

text \<open>The cube root of the raised middle row, 1.0000001, lies between 1 and 1.0000001.\<close>

lemma y_factor:
  "1 \<le> (1.0000001 :: real) powr (1 / 3)" "(1.0000001 :: real) powr (1 / 3) \<le> 1.0000001"
proof -
  show "1 \<le> (1.0000001 :: real) powr (1 / 3)" by (rule ge_one_powr_ge_zero) simp_all
  have "(1.0000001 :: real) powr (1 / 3) \<le> 1.0000001 powr 1" by (rule powr_mono) simp_all
  then show "(1.0000001 :: real) powr (1 / 3) \<le> 1.0000001" by simp
qed

text \<open>
  The LAB coordinates of a grey: with \<open>f\<close> the cube root of the linear value, the
  lightness is \<open>116 f k - 16\<close> and the two chroma coordinates are \<open>f (k - 1)\<close> times
  \<open>-500\<close> and \<open>200\<close>, where \<open>k\<close> is between 1 and 1.0000001.
\<close>

lemma rgbToLab_gray_bounds:
  assumes "0.04045 < v / 255"
    and "lin = ((v / 255 + 0.055) / 1.055) powr 2.4"
    and "0.008856 < lin"
    and "lo ^ 3 \<le> lin" "lin \<le> hi ^ 3" "0 \<le> lo" "0 \<le> hi"
  shows "\<exists>l a b. rgbToLab v v v = (l, a, b)
           \<and> 116 * lo - 16 \<le> l \<and> l \<le> 116 * (hi * 1.0000001) - 16
           \<and> \<bar>a\<bar> \<le> 500 * (hi * 0.0000001) \<and> \<bar>b\<bar> \<le> 200 * (hi * 0.0000001)"
proof -
  define f where "f = lin powr (1 / 3)"
  define k where "k = (1.0000001 :: real) powr (1 / 3)"
  have lin0: "0 \<le> lin" using assms(3) by simp
  have fy: "(lin * 1.0000001) powr (1 / 3) = f * k"
    unfolding f_def k_def by (rule powr_mult)
  have k: "1 \<le> k" "k \<le> 1.0000001" unfolding k_def by (rule y_factor)+
  have f: "lo \<le> f" "f \<le> hi"
    unfolding f_def using assms(4-7) lin0 by (auto intro: cube_root_ge cube_root_le)
  have f0: "0 \<le> f" using f(1) assms(6) by linarith
  have lab: "rgbToLab v v v = (116 * (f * k) - 16, 500 * (f - f * k), 200 * (f * k - f))"
    unfolding rgbToLab_gray[OF assms(1-3)] fy f_def[symmetric] ..
  have fk1: "f \<le> f * k" using f0 k(1) by (simp add: mult_le_cancel_left1)
  have "f * k \<le> hi * 1.0000001" using f(2) k(2) f0 k(1) by (intro mult_mono) simp_all
  then have l2: "116 * (f * k) - 16 \<le> 116 * (hi * 1.0000001) - 16" by simp
  have l1: "116 * lo - 16 \<le> 116 * (f * k) - 16" using f(1) fk1 by simp
  have d: "f * k - f = f * (k - 1)" by (simp add: algebra_simps)
  have "f * (k - 1) \<le> hi * 0.0000001" using f(2) k f0 by (intro mult_mono) simp_all
  then have d1: "f * k - f \<le> hi * 0.0000001" and d0: "0 \<le> f * k - f"
    using d fk1 by simp_all
  have a: "\<bar>500 * (f - f * k)\<bar> \<le> 500 * (hi * 0.0000001)" using d0 d1 by simp
  have b: "\<bar>200 * (f * k - f)\<bar> \<le> 200 * (hi * 0.0000001)" using d0 d1 by simp
  from lab l1 l2 a b show ?thesis by blast
qed

subsection \<open>Black against white and against dark grey\<close>

lemma deltaE2000_from_black:
  "deltaE2000 (0, 0, 0) (r, g, b) = ciede2000 (0, 0, 0) (rgbToLab (real_of_int r) (real_of_int g) (real_of_int b))"
  by (simp add: deltaE2000_def rgbToLab_black)

lemma lab_white:
  "\<exists>l a b. rgbToLab 255 255 255 = (l, a, b)
           \<and> 100 \<le> l \<and> l \<le> 100.0000116
           \<and> \<bar>a\<bar> \<le> 0.00005 \<and> \<bar>b\<bar> \<le> 0.00002"
proof -
  have lin: "(1::real) = ((255 / 255 + 0.055) / 1.055) powr 2.4" by simp
  from rgbToLab_gray_bounds[of 255 1 1 1, OF _ lin]
  show ?thesis by simp
qed

lemma deltaE_black_white: "99 \<le> deltaE2000 (0, 0, 0) (255, 255, 255)"
proof -
  from lab_white obtain l a b where
    lab: "rgbToLab 255 255 255 = (l, a, b)" and l: "100 \<le> l" "l \<le> 100.0000116" by blast
  have d: "\<bar>l / 2 - 50\<bar> \<le> 0.0000058" using l by simp
  have den: "0 < 1 + 0.015 * \<bar>l / 2 - 50\<bar>" by (simp add: add_pos_nonneg)
  have le: "1 + 0.015 * \<bar>l / 2 - 50\<bar> \<le> 1 + 0.015 * 0.0000058" using d by simp
  have z: "0 \<le> l" using l by simp
  have "99 \<le> 100 / (1 + 0.015 * (0.0000058 :: real))" by simp
  also have "\<dots> \<le> l / (1 + 0.015 * \<bar>l / 2 - 50\<bar>)"
    using z l(1) den le by (rule frac_le)
  also have "\<dots> \<le> ciede2000 (0, 0, 0) (l, a, b)"
    by (rule ciede2000_from_black_lower) (use l in simp)
  finally show ?thesis unfolding deltaE2000_from_black using lab by simp
qed

lemma lin_dark_gray:
  fixes lin :: real
  assumes "lin = ((60 / 255 + 0.055) / 1.055) powr 2.4"
  shows "0.27 ^ 3 \<le> lin" "lin \<le> 0.43 ^ 3"
proof -
  define base :: real where "base = 987 / 3587"
  have b: "(60 / 255 + 0.055) / 1.055 = base" unfolding base_def by simp
  have b01: "0 < base" "base \<le> 1" unfolding base_def by simp_all
  have "base powr 3 \<le> base powr 2.4" using b01 by (intro powr_mono') simp_all
  moreover have "base powr 3 = base ^ 3" using b01 by (simp add: powr_numeral)
  moreover have "(0.27::real) ^ 3 \<le> base ^ 3" unfolding base_def by (simp add: power3_eq_cube)
  ultimately show "0.27 ^ 3 \<le> lin" unfolding assms b by linarith
  have "base powr 2.4 \<le> base powr 2" using b01 by (intro powr_mono') simp_all
  moreover have "base powr 2 = base ^ 2" using b01 by (simp add: powr_numeral)
  moreover have "base ^ 2 \<le> (0.43::real) ^ 3" unfolding base_def by (simp add: power2_eq_square power3_eq_cube)
  ultimately show "lin \<le> 0.43 ^ 3" unfolding assms b by linarith
qed

lemma lab_dark_gray:
  "\<exists>l a b. rgbToLab 60 60 60 = (l, a, b)
           \<and> 15 \<le> l \<and> l \<le> 33.9
           \<and> \<bar>a\<bar> \<le> 0.00003 \<and> \<bar>b\<bar> \<le> 0.00001"
proof -
  define lin :: real where "lin = ((60 / 255 + 0.055) / 1.055) powr 2.4"
  have l: "0.27 ^ 3 \<le> lin" "lin \<le> 0.43 ^ 3" using lin_dark_gray[OF lin_def] .
  have g: "(0.008856::real) < 0.27 ^ 3" by (simp add: power3_eq_cube)
  have t: "0.008856 < lin" using l(1) g by linarith
  from rgbToLab_gray_bounds[of 60 lin "0.27" "0.43", OF _ lin_def t l]
  obtain la a b where lab: "rgbToLab 60 60 60 = (la, a, b)"
    and b1: "116 * 0.27 - 16 \<le> la" "la \<le> 116 * (0.43 * 1.0000001) - 16"
    and b2: "\<bar>a\<bar> \<le> 500 * (0.43 * 0.0000001)" "\<bar>b\<bar> \<le> 200 * (0.43 * 0.0000001)"
    by auto
  have "15 \<le> la" using b1(1) by simp
  moreover have "la \<le> 33.9" using b1(2) by simp
  moreover have "\<bar>a\<bar> \<le> 0.00003" using b2(1) by simp
  moreover have "\<bar>b\<bar> \<le> 0.00001" using b2(2) by simp
  ultimately show ?thesis using lab by blast
qed

lemma deltaE_black_dark_gray:
  "8 \<le> deltaE2000 (0, 0, 0) (60, 60, 60)" "deltaE2000 (0, 0, 0) (60, 60, 60) \<le> 34"
proof -
  from lab_dark_gray obtain l a b where
    lab: "rgbToLab 60 60 60 = (l, a, b)" and l: "15 \<le> l" "l \<le> 33.9"
    and a: "\<bar>a\<bar> \<le> 0.00003" and b: "\<bar>b\<bar> \<le> 0.00001" by blast
  have e: "deltaE2000 (0, 0, 0) (60, 60, 60) = ciede2000 (0, 0, 0) (l, a, b)"
    unfolding deltaE2000_from_black using lab by simp
  have d: "\<bar>l / 2 - 50\<bar> \<le> 50" using l by simp
  have den: "0 < 1 + 0.015 * \<bar>l / 2 - 50\<bar>" by (simp add: add_pos_nonneg)
  have le: "1 + 0.015 * \<bar>l / 2 - 50\<bar> \<le> 1 + 0.015 * 50" using d by simp
  have z: "0 \<le> l" using l by simp
  have "8 \<le> 15 / (1 + 0.015 * (50 :: real))" by simp
  also have "\<dots> \<le> l / (1 + 0.015 * \<bar>l / 2 - 50\<bar>)"
    using z l(1) den le by (rule frac_le)
  also have "\<dots> \<le> ciede2000 (0, 0, 0) (l, a, b)"
    by (rule ciede2000_from_black_lower) (use l in simp)
  finally show "8 \<le> deltaE2000 (0, 0, 0) (60, 60, 60)" unfolding e .
  have "ciede2000 (0, 0, 0) (l, a, b) \<le> \<bar>l\<bar> + 3 / 2 * \<bar>a\<bar> + \<bar>b\<bar>"
    by (rule ciede2000_from_black_upper)
  also have "\<dots> \<le> 34" using l a b by simp
  finally show "deltaE2000 (0, 0, 0) (60, 60, 60) \<le> 34" unfolding e .
qed
section \<open>The three tiers of the tile analysis\<close>

text \<open>
  Claim C4. With \<open>analyzeTransparentPixels\<close> enabled, a pixel visited by
  \<open>analyzeTile\<close> whose template centre sample has alpha below 128 and whose live centre
  sample has alpha above 0 gets exactly one candidate in the result: colour id 0 (erase)
  with priority 2,000,000. The grief-clean test is the first branch of the loop body,
  so nothing else about the pixel or the cache changes this outcome.
\<close>

theorem analyzeTile_grief_clean:
  assumes "templatesToDraw \<noteq> []"
    and "(x, y) \<in> set (loopCoords (tileRect tm templatesToDraw))"
    and "inRaster tm x y"
    and "analyzeTransparentPixels tm"
    and "alphaAt tm t x y < 128"
    and "alphaAt tm g x y > 0"
  shows "\<exists>out tm'. analyzeTile tm dE (Some g) t templatesToDraw tc = Inr (out, tm')
           \<and> filter (\<lambda>c. pixelCoords c = (x, y)) out
               = [\<lparr>tileCoords = tc, pixelCoords = (x, y), colorId = 0, priority = 2000000\<rparr>]"
proof -
  from analyzeTile_pixels[OF assms(1), of tm dE g t tc]
  obtain out cache' where
    px: "analyzePixels tm dE g t tc (tileRect tm templatesToDraw)
             (loopCoords (tileRect tm templatesToDraw)) (templateColorCache tm) = Inr (out, cache')"
    and at: "analyzeTile tm dE (Some g) t templatesToDraw tc
             = Inr (out, tm\<lparr>templateColorCache := cache'\<rparr>)" by blast
  from analyzePixels_at[OF px loopCoords_distinct assms(2)]
  obtain c0 c1 pd where
    ap: "analyzePixel tm dE g t tc (tileRect tm templatesToDraw) x y c0 = Inr (pd, c1)"
    and f: "filter (\<lambda>c. pixelCoords c = (x, y)) out = (case pd of None \<Rightarrow> [] | Some p \<Rightarrow> [p])"
    by blast
  have "pixelTier tm g t x y = Some GriefClean"
    using assms(3-6) by (rule pixelTier_GriefClean)
  from analyzePixel_grief[OF this, of dE tc "tileRect tm templatesToDraw" c0] ap
  have "pd = Some \<lparr>tileCoords = tc, pixelCoords = (x, y), colorId = 0, priority = 2000000\<rparr>"
    by simp
  with f at show ?thesis by simp
qed

text \<open>
  Witness for C4: a one-pixel template at the tile origin, fully transparent, over a
  live tile that is painted everywhere.
\<close>

theorem analyzeTile_grief_clean_witness:
  "\<exists>out tm'.
     analyzeTile (setAnalyzeTransparentPixels True (newTemplateManager [])) (\<lambda>a b. 0)
       (Some (\<lambda>i. 255)) (\<lambda>i. 0) [\<lparr>chunkPixelCoords = (0, 0), bitmapWidth = 3, bitmapHeight = 3\<rparr>] (5, 7)
       = Inr (out, tm')
     \<and> filter (\<lambda>c. pixelCoords c = (0, 0)) out
         = [\<lparr>tileCoords = (5, 7), pixelCoords = (0, 0), colorId = 0, priority = 2000000\<rparr>]"
proof -
  let ?tm = "setAnalyzeTransparentPixels True (newTemplateManager [])"
  let ?tpls = "[\<lparr>chunkPixelCoords = (0, 0), bitmapWidth = 3, bitmapHeight = 3\<rparr>]"
  have h1: "?tpls \<noteq> []" by simp
  have r: "tileRect ?tm ?tpls = (0, 0, 1, 1)"
    by (simp add: tileRect_def setAnalyzeTransparentPixels_def newTemplateManager_def)
  have h2: "(0, 0) \<in> set (loopCoords (tileRect ?tm ?tpls))"
    unfolding r loopCoords_mem by simp
  have h3: "inRaster ?tm 0 0"
    by (simp add: inRaster_def sampleIndex_def setAnalyzeTransparentPixels_def newTemplateManager_def)
  have h4: "analyzeTransparentPixels ?tm"
    by (simp add: setAnalyzeTransparentPixels_def)
  have h5: "alphaAt ?tm (\<lambda>i. 0) 0 0 < 128" by (simp add: alphaAt_def)
  have h6: "alphaAt ?tm (\<lambda>i. 255) 0 0 > 0" by (simp add: alphaAt_def)
  show ?thesis
    using analyzeTile_grief_clean[OF h1 h2 h3 h4 h5 h6, of "\<lambda>a b. 0" "(5, 7)"] .
qed

text \<open>
  Claim C5. A visited pixel whose template centre sample has alpha above 128 and whose
  live centre sample has alpha below 128 gets exactly one candidate: its colour id is
  the one \<open>findClosestColor\<close> returns for the template RGB, its priority is 1,000,000
  plus the centre bonus, and that priority is at least 1,000,000 and below 2,000,000
  (with grief-clean disabled or enabled). The cache is assumed consistent, which holds
  for every manager reachable from the constructor.
\<close>

theorem analyzeTile_new_placement:
  assumes "templatesToDraw \<noteq> []"
    and "(x, y) \<in> set (loopCoords (tileRect tm templatesToDraw))"
    and "inRaster tm x y"
    and "cacheConsistent (templateColorCache tm)"
    and "alphaAt tm t x y > 128"
    and "alphaAt tm g x y < 128"
  shows "\<exists>out tm' k. analyzeTile tm dE (Some g) t templatesToDraw tc = Inr (out, tm')
           \<and> findClosestColor (rgbAt tm t x y) = Inr k
           \<and> filter (\<lambda>c. pixelCoords c = (x, y)) out
               = [\<lparr>tileCoords = tc, pixelCoords = (x, y), colorId = k,
                   priority = 1000000 + centerBonus (tileRect tm templatesToDraw) x y\<rparr>]
           \<and> 1000000 \<le> 1000000 + centerBonus (tileRect tm templatesToDraw) x y
           \<and> 1000000 + centerBonus (tileRect tm templatesToDraw) x y < 2000000"
proof -
  from analyzeTile_pixels[OF assms(1), of tm dE g t tc]
  obtain out cache' where
    px: "analyzePixels tm dE g t tc (tileRect tm templatesToDraw)
             (loopCoords (tileRect tm templatesToDraw)) (templateColorCache tm) = Inr (out, cache')"
    and at: "analyzeTile tm dE (Some g) t templatesToDraw tc
             = Inr (out, tm\<lparr>templateColorCache := cache'\<rparr>)" by blast
  from analyzePixels_at[OF px loopCoords_distinct assms(2)] assms(4)
  obtain c0 c1 pd where
    ap: "analyzePixel tm dE g t tc (tileRect tm templatesToDraw) x y c0 = Inr (pd, c1)"
    and f: "filter (\<lambda>c. pixelCoords c = (x, y)) out = (case pd of None \<Rightarrow> [] | Some p \<Rightarrow> [p])"
    and c0: "cacheConsistent c0"
    by blast
  have tier: "pixelTier tm g t x y = Some NewPlacement"
    using assms(3,5,6) by (rule pixelTier_NewPlacement)
  from analyzePixel_expected[OF c0, of tm dE g t tc "tileRect tm templatesToDraw" x y] ap
  have "pd = expectedPixel tm dE g t tc (tileRect tm templatesToDraw) x y" by auto
  then have pd: "pd = Some \<lparr>tileCoords = tc, pixelCoords = (x, y), colorId = nearestId (rgbAt tm t x y),
                priority = 1000000 + centerBonus (tileRect tm templatesToDraw) x y\<rparr>"
    using tier by (simp add: expectedPixel_def)
  have cb: "0 \<le> centerBonus (tileRect tm templatesToDraw) x y"
           "centerBonus (tileRect tm templatesToDraw) x y \<le> 500000"
    using centerBonus_visited[OF assms(2)] by auto
  show ?thesis
    using at f pd cb findClosestColor_nearestId[of "rgbAt tm t x y"] by simp
qed

text \<open>
  Witness for C5: a one-pixel opaque white template over an empty live tile.
\<close>

theorem analyzeTile_new_placement_witness:
  "\<exists>out tm' k.
     analyzeTile (newTemplateManager []) (\<lambda>a b. 0)
       (Some (\<lambda>i. 0)) (\<lambda>i. 255) [\<lparr>chunkPixelCoords = (0, 0), bitmapWidth = 3, bitmapHeight = 3\<rparr>] (5, 7)
       = Inr (out, tm')
     \<and> findClosestColor (255, 255, 255) = Inr k
     \<and> filter (\<lambda>c. pixelCoords c = (0, 0)) out
         = [\<lparr>tileCoords = (5, 7), pixelCoords = (0, 0), colorId = k,
             priority = 1000000 + centerBonus (0, 0, 1, 1) 0 0\<rparr>]
     \<and> 1000000 \<le> 1000000 + centerBonus (0, 0, 1, 1) 0 0
     \<and> 1000000 + centerBonus (0, 0, 1, 1) 0 0 < 2000000"
proof -
  let ?tm = "newTemplateManager []"
  let ?tpls = "[\<lparr>chunkPixelCoords = (0, 0), bitmapWidth = 3, bitmapHeight = 3\<rparr>]"
  have h1: "?tpls \<noteq> []" by simp
  have r: "tileRect ?tm ?tpls = (0, 0, 1, 1)"
    by (simp add: tileRect_def newTemplateManager_def)
  have h2: "(0, 0) \<in> set (loopCoords (tileRect ?tm ?tpls))"
    unfolding r loopCoords_mem by simp
  have h3: "inRaster ?tm 0 0"
    by (simp add: inRaster_def sampleIndex_def newTemplateManager_def)
  have h4: "cacheConsistent (templateColorCache ?tm)"
    by (simp add: newTemplateManager_def cacheConsistent_def)
  have h5: "alphaAt ?tm (\<lambda>i. 255) 0 0 > 128" by (simp add: alphaAt_def)
  have h6: "alphaAt ?tm (\<lambda>i. 0) 0 0 < 128" by (simp add: alphaAt_def)
  have c: "rgbAt ?tm (\<lambda>i. 255) 0 0 = (255, 255, 255)"
    by (simp add: rgbAt_def rgbOf_def)
  show ?thesis
    using analyzeTile_new_placement[OF h1 h2 h3 h4 h5 h6, of "\<lambda>a b. 0" "(5, 7)"]
    unfolding r c .
qed

text \<open>
  Claim C9. Within one invocation of \<open>analyzeTile\<close> every emitted candidate belongs to
  one of the three tiers; a grief-clean candidate has priority exactly 2,000,000, a
  new-placement candidate has priority in [1,000,000, 1,500,000], a colour-correction
  candidate has priority at most 1,000,000 (a capped colour score of at most 500,000
  plus a centre bonus of at most 500,000), and every grief-clean candidate has a
  strictly greater priority than every candidate of another tier.
\<close>

theorem analyzeTile_tier_order:
  assumes "templatesToDraw \<noteq> []"
  shows "\<exists>out tm'. analyzeTile tm dE (Some g) t templatesToDraw tc = Inr (out, tm')
     \<and> (\<forall>c \<in> set out.
           (case candidateTier tm g t c of
              None \<Rightarrow> False
            | Some GriefClean \<Rightarrow> priority c = 2000000
            | Some NewPlacement \<Rightarrow> 1000000 \<le> priority c \<and> priority c \<le> 1500000
            | Some ColorCorrection \<Rightarrow> priority c \<le> 1000000))
     \<and> (\<forall>c \<in> set out. \<forall>c' \<in> set out.
           candidateTier tm g t c = Some GriefClean \<and> candidateTier tm g t c' \<noteq> Some GriefClean
             \<longrightarrow> priority c' < priority c)"
proof -
  let ?rect = "tileRect tm templatesToDraw"
  from analyzeTile_pixels[OF assms, of tm dE g t tc]
  obtain out cache' where
    px: "analyzePixels tm dE g t tc ?rect (loopCoords ?rect) (templateColorCache tm) = Inr (out, cache')"
    and at: "analyzeTile tm dE (Some g) t templatesToDraw tc
             = Inr (out, tm\<lparr>templateColorCache := cache'\<rparr>)" by blast
  have tiers: "\<forall>c \<in> set out.
           (case candidateTier tm g t c of
              None \<Rightarrow> False
            | Some GriefClean \<Rightarrow> priority c = 2000000
            | Some NewPlacement \<Rightarrow> 1000000 \<le> priority c \<and> priority c \<le> 1500000
            | Some ColorCorrection \<Rightarrow> priority c \<le> 1000000)"
  proof
    fix c assume "c \<in> set out"
    from analyzePixels_from[OF px this]
    obtain x y c0 c1 where v: "(x, y) \<in> set (loopCoords ?rect)"
      and ap: "analyzePixel tm dE g t tc ?rect x y c0 = Inr (Some c, c1)" by blast
    from analyzePixel_priority[OF ap]
    have pc: "pixelCoords c = (x, y)"
      and pr: "(case pixelTier tm g t x y of
        None \<Rightarrow> False
      | Some GriefClean \<Rightarrow> priority c = 2000000
      | Some NewPlacement \<Rightarrow> priority c = 1000000 + centerBonus ?rect x y
      | Some ColorCorrection \<Rightarrow>
          priority c = colorPriority (calculateColorDifference (dE (rgbAt tm g x y) (rgbAt tm t x y)))
                       + centerBonus ?rect x y)" by auto
    have cb: "0 \<le> centerBonus ?rect x y" "centerBonus ?rect x y \<le> 500000"
      using centerBonus_visited[OF v] by auto
    have cp: "colorPriority (calculateColorDifference (dE (rgbAt tm g x y) (rgbAt tm t x y))) \<le> 500000"
      by (rule colorPriority_le)
    have ct: "candidateTier tm g t c = pixelTier tm g t x y"
      by (simp add: candidateTier_def pc)
    show "(case candidateTier tm g t c of
              None \<Rightarrow> False
            | Some GriefClean \<Rightarrow> priority c = 2000000
            | Some NewPlacement \<Rightarrow> 1000000 \<le> priority c \<and> priority c \<le> 1500000
            | Some ColorCorrection \<Rightarrow> priority c \<le> 1000000)"
      unfolding ct using pr cb cp
      by (cases "pixelTier tm g t x y") (auto split: tier.splits)
  qed
  have order: "\<forall>c \<in> set out. \<forall>c' \<in> set out.
           candidateTier tm g t c = Some GriefClean \<and> candidateTier tm g t c' \<noteq> Some GriefClean
             \<longrightarrow> priority c' < priority c"
  proof (intro ballI impI)
    fix c c' assume c: "c \<in> set out" and c': "c' \<in> set out"
      and h: "candidateTier tm g t c = Some GriefClean \<and> candidateTier tm g t c' \<noteq> Some GriefClean"
    from tiers c h have "priority c = 2000000" by fastforce
    moreover from tiers c' h have "priority c' \<le> 1500000"
      by (cases "candidateTier tm g t c'") (fastforce split: tier.splits)+
    ultimately show "priority c' < priority c" by simp
  qed
  from at tiers order show ?thesis by blast
qed

text \<open>
  Witness for C9: the pass over a one-pixel opaque white template on an empty tile
  emits a new-placement candidate, and its priority lies in the stated interval.
\<close>

theorem analyzeTile_tier_order_witness:
  "\<exists>out tm' c.
     analyzeTile (newTemplateManager []) (\<lambda>a b. 0)
       (Some (\<lambda>i. 0)) (\<lambda>i. 255) [\<lparr>chunkPixelCoords = (0, 0), bitmapWidth = 3, bitmapHeight = 3\<rparr>] (5, 7)
       = Inr (out, tm')
     \<and> c \<in> set out
     \<and> candidateTier (newTemplateManager []) (\<lambda>i. 0) (\<lambda>i. 255) c = Some NewPlacement
     \<and> 1000000 \<le> priority c \<and> priority c \<le> 1500000"
proof -
  let ?tm = "newTemplateManager []"
  let ?tpls = "[\<lparr>chunkPixelCoords = (0, 0), bitmapWidth = 3, bitmapHeight = 3\<rparr>]"
  let ?g = "(\<lambda>i. 0) :: imageData"
  let ?t = "(\<lambda>i. 255) :: imageData"
  have h1: "?tpls \<noteq> []" by simp
  have r: "tileRect ?tm ?tpls = (0, 0, 1, 1)"
    by (simp add: tileRect_def newTemplateManager_def)
  have h2: "(0, 0) \<in> set (loopCoords (tileRect ?tm ?tpls))"
    unfolding r loopCoords_mem by simp
  have h3: "cacheConsistent (templateColorCache ?tm)"
    by (simp add: newTemplateManager_def cacheConsistent_def)
  have tier: "pixelTier ?tm ?g ?t 0 0 = Some NewPlacement"
    by (simp add: pixelTier_def inRaster_def sampleIndex_def alphaAt_def newTemplateManager_def)
  from analyzeTile_tier_order[OF h1, of ?tm "\<lambda>a b. 0" ?g ?t "(5, 7)"]
  obtain out tm' where at: "analyzeTile ?tm (\<lambda>a b. 0) (Some ?g) ?t ?tpls (5, 7) = Inr (out, tm')"
    and tiers: "\<forall>c \<in> set out.
           (case candidateTier ?tm ?g ?t c of
              None \<Rightarrow> False
            | Some GriefClean \<Rightarrow> priority c = 2000000
            | Some NewPlacement \<Rightarrow> 1000000 \<le> priority c \<and> priority c \<le> 1500000
            | Some ColorCorrection \<Rightarrow> priority c \<le> 1000000)" by blast
  from analyzeTile_visited[OF h1 h2 h3, of "\<lambda>a b. 0" ?g ?t "(5, 7)"] at
  have "filter (\<lambda>c. pixelCoords c = (0, 0)) out
               = (case expectedPixel ?tm (\<lambda>a b. 0) ?g ?t (5, 7) (tileRect ?tm ?tpls) 0 0 of
                    None \<Rightarrow> [] | Some p \<Rightarrow> [p])" by simp
  then obtain c where c: "filter (\<lambda>c. pixelCoords c = (0, 0)) out = [c]"
    by (simp add: expectedPixel_def tier)
  then have "c \<in> set (filter (\<lambda>c. pixelCoords c = (0, 0)) out)" by simp
  then have mem: "c \<in> set out" and pc: "pixelCoords c = (0, 0)" by auto
  have ct: "candidateTier ?tm ?g ?t c = Some NewPlacement"
    by (simp add: candidateTier_def pc tier)
  from tiers mem ct have "1000000 \<le> priority c \<and> priority c \<le> 1500000" by fastforce
  with at mem ct show ?thesis by blast
qed

section \<open>Colour-correction priorities and the ceiling\<close>

lemma fcc_dark_gray: "nearestId (60, 60, 60) = 2"
  by (simp add: nearestId_def findClosestColor_def findClosestColorSt_def initializePalettes_fresh
        paletteRGBs_def colorpalette_def)

lemma colorPriority_cap:
  assumes "1 / 50 \<le> d"
  shows "colorPriority (calculateColorDifference d) = 500000"
proof -
  have "1 \<le> d * 5000 / 100" using assms by simp
  then show ?thesis unfolding colorPriority_def calculateColorDifference_def by (simp add: min_def)
qed

lemma loopCoords_unit: "loopCoords (0, 0, 1, 1) = [(0, 0)]"
  by (simp add: loopCoords_def)

lemma analyzeTile_single_pixel:
  assumes "templatesToDraw \<noteq> []" "tileRect tm templatesToDraw = (0, 0, 1, 1)"
    and "cacheConsistent (templateColorCache tm)"
  shows "map_sum id fst (analyzeTile tm dE (Some g) t templatesToDraw tc)
           = Inr (case expectedPixel tm dE g t tc (0, 0, 1, 1) 0 0 of None \<Rightarrow> [] | Some p \<Rightarrow> [p])"
proof -
  from analyzeTile_pixels[OF assms(1), of tm dE g t tc]
  obtain out cache' where
    px: "analyzePixels tm dE g t tc (0, 0, 1, 1) [(0, 0)] (templateColorCache tm) = Inr (out, cache')"
    and at: "analyzeTile tm dE (Some g) t templatesToDraw tc
             = Inr (out, tm\<lparr>templateColorCache := cache'\<rparr>)"
    unfolding assms(2) loopCoords_unit by blast
  from analyzePixel_expected[OF assms(3), of tm dE g t tc "(0, 0, 1, 1)" 0 0]
  obtain c1 where ap: "analyzePixel tm dE g t tc (0, 0, 1, 1) 0 0 (templateColorCache tm)
                        = Inr (expectedPixel tm dE g t tc (0, 0, 1, 1) 0 0, c1)" by blast
  from px ap have "out = (case expectedPixel tm dE g t tc (0, 0, 1, 1) 0 0 of None \<Rightarrow> [] | Some p \<Rightarrow> [p])"
    by (simp split: option.splits)
  with at show ?thesis by simp
qed

lemma centerBonus_unit: "centerBonus (0, 0, 1, 1) 0 0 = 0"
proof -
  have p: "0 < sqrt (1 / 2 :: real)" by simp
  have "sqrt ((1 - 1 / 2)\<^sup>2 + (1 - 1 / 2)\<^sup>2) = sqrt (1 / 2 :: real)"
    by (simp add: power2_eq_square)
  moreover have "sqrt ((0 - 1 / 2)\<^sup>2 + (0 - 1 / 2)\<^sup>2) = sqrt (1 / 2 :: real)"
    by (simp add: power2_eq_square)
  ultimately show ?thesis using p by (simp add: centerBonus_def Let_def)
qed

text \<open>
  A one-pixel template over a black tile. The live tile is black and opaque all over.
  The template is one pixel at (0, 0): its 3 by 3 bitmap holds an opaque grey of the
  given level at its centre, which is raster pixel (1, 1), bytes 12004 to 12007 of a
  raster 3000 pixels wide, and the rest of the canvas is transparent. When the grey
  is not mapped to black and is at least 0.02 away from it, the pass yields one
  candidate, with the colour score at its ceiling.
\<close>

lemma correction_over_black:
  fixes v :: "8 word"
  defines "tm \<equiv> newTemplateManager []"
    and "live \<equiv> (\<lambda>i. if i mod 4 = 3 then 255 else 0) :: imageData"
    and "tpl \<equiv> (\<lambda>i. if i = 12004 \<or> i = 12005 \<or> i = 12006 then v
                       else if i = 12007 then 255 else 0) :: imageData"
    and "tpls \<equiv> [\<lparr>chunkPixelCoords = (0, 0), bitmapWidth = 3, bitmapHeight = 3\<rparr>]"
  assumes "nearestId (uint v, uint v, uint v) \<noteq> 1"
    and "1 / 50 \<le> deltaE2000 (0, 0, 0) (uint v, uint v, uint v)"
  shows "map_sum id fst (analyzeTile tm deltaE2000 (Some live) tpl tpls (5, 7))
           = Inr [\<lparr>tileCoords = (5, 7), pixelCoords = (0, 0),
                    colorId = nearestId (uint v, uint v, uint v), priority = 500000\<rparr>]"
proof -
  have ne: "tpls \<noteq> []" by (simp add: tpls_def)
  have r: "tileRect tm tpls = (0, 0, 1, 1)"
    by (simp add: tileRect_def tm_def tpls_def newTemplateManager_def)
  have cc: "cacheConsistent (templateColorCache tm)" unfolding tm_def by (rule cacheConsistent_new)
  have ix: "nat (sampleIndex tm 0 0) = 12004"
    by (simp add: sampleIndex_def tm_def newTemplateManager_def)
  have ir: "inRaster tm 0 0" by (simp add: inRaster_def sampleIndex_def tm_def newTemplateManager_def)
  have at: "alphaAt tm tpl 0 0 = 255" by (simp add: alphaAt_def ix tpl_def)
  have ag: "alphaAt tm live 0 0 = 255" by (simp add: alphaAt_def ix live_def)
  have tier: "pixelTier tm live tpl 0 0 = Some ColorCorrection"
    by (simp add: pixelTier_def ir at ag)
  have rt: "rgbAt tm tpl 0 0 = (uint v, uint v, uint v)" by (simp add: rgbAt_def rgbOf_def ix tpl_def)
  have rg: "rgbAt tm live 0 0 = (0, 0, 0)" by (simp add: rgbAt_def rgbOf_def ix live_def)
  have pr: "colorPriority (calculateColorDifference (deltaE2000 (0, 0, 0) (uint v, uint v, uint v)))
              = 500000" using assms(6) by (rule colorPriority_cap)
  have e: "expectedPixel tm deltaE2000 live tpl (5, 7) (0, 0, 1, 1) 0 0
             = Some \<lparr>tileCoords = (5, 7), pixelCoords = (0, 0),
                     colorId = nearestId (uint v, uint v, uint v), priority = 500000\<rparr>"
    unfolding expectedPixel_def tier rt rg fcc_black pr centerBonus_unit using assms(5) by simp
  show ?thesis unfolding analyzeTile_single_pixel[OF ne r cc] e by simp
qed

text \<open>
  Claim C2, at its failing input. Two colour corrections at the same position, pixel
  (0, 0) of tile (5, 7): over a black live pixel, the template asks for dark grey
  (60, 60, 60) in one pass and for white in the other. Their CIEDE2000 distances from
  black differ widely, at most 34 for dark grey and at least 99 for white, yet
  \<open>analyzeTile\<close> gives both candidates the same priority, 500,000 (the centre bonus
  of this pixel is 0): \<open>calculateColorDifference\<close> has multiplied the distance by
  5000 before it is divided by 100 and capped at 1, so the cap is reached from a
  distance of 0.02 on.
\<close>

theorem correction_priority_at_ceiling:
  "map_sum id fst
     (analyzeTile (newTemplateManager []) deltaE2000
        (Some (\<lambda>i. if i mod 4 = 3 then 255 else 0))
        (\<lambda>i. if i = 12004 \<or> i = 12005 \<or> i = 12006 then 60 else if i = 12007 then 255 else 0)
        [\<lparr>chunkPixelCoords = (0, 0), bitmapWidth = 3, bitmapHeight = 3\<rparr>] (5, 7))
     = Inr [\<lparr>tileCoords = (5, 7), pixelCoords = (0, 0), colorId = 2, priority = 500000\<rparr>]
   \<and> map_sum id fst
     (analyzeTile (newTemplateManager []) deltaE2000
        (Some (\<lambda>i. if i mod 4 = 3 then 255 else 0))
        (\<lambda>i. if i = 12004 \<or> i = 12005 \<or> i = 12006 then 255 else if i = 12007 then 255 else 0)
        [\<lparr>chunkPixelCoords = (0, 0), bitmapWidth = 3, bitmapHeight = 3\<rparr>] (5, 7))
     = Inr [\<lparr>tileCoords = (5, 7), pixelCoords = (0, 0), colorId = 5, priority = 500000\<rparr>]
   \<and> deltaE2000 (0, 0, 0) (60, 60, 60) \<le> 34
   \<and> 99 \<le> deltaE2000 (0, 0, 0) (255, 255, 255)
   \<and> deltaE2000 (0, 0, 0) (60, 60, 60) < deltaE2000 (0, 0, 0) (255, 255, 255)"
proof -
  have g1: "nearestId (uint (60 :: 8 word), uint (60 :: 8 word), uint (60 :: 8 word)) \<noteq> 1"
    by (simp add: fcc_dark_gray)
  have g2: "1 / 50 \<le> deltaE2000 (0, 0, 0) (uint (60 :: 8 word), uint (60 :: 8 word), uint (60 :: 8 word))"
    using deltaE_black_dark_gray(1) by simp
  have w1: "nearestId (uint (255 :: 8 word), uint (255 :: 8 word), uint (255 :: 8 word)) \<noteq> 1"
    by (simp add: fcc_white)
  have w2: "1 / 50 \<le> deltaE2000 (0, 0, 0) (uint (255 :: 8 word), uint (255 :: 8 word), uint (255 :: 8 word))"
    using deltaE_black_white by simp
  from correction_over_black[OF g1 g2]
  have a: "map_sum id fst
     (analyzeTile (newTemplateManager []) deltaE2000
        (Some (\<lambda>i. if i mod 4 = 3 then 255 else 0))
        (\<lambda>i. if i = 12004 \<or> i = 12005 \<or> i = 12006 then 60 else if i = 12007 then 255 else 0)
        [\<lparr>chunkPixelCoords = (0, 0), bitmapWidth = 3, bitmapHeight = 3\<rparr>] (5, 7))
     = Inr [\<lparr>tileCoords = (5, 7), pixelCoords = (0, 0), colorId = 2, priority = 500000\<rparr>]"
    by (simp add: fcc_dark_gray)
  from correction_over_black[OF w1 w2]
  have b: "map_sum id fst
     (analyzeTile (newTemplateManager []) deltaE2000
        (Some (\<lambda>i. if i mod 4 = 3 then 255 else 0))
        (\<lambda>i. if i = 12004 \<or> i = 12005 \<or> i = 12006 then 255 else if i = 12007 then 255 else 0)
        [\<lparr>chunkPixelCoords = (0, 0), bitmapWidth = 3, bitmapHeight = 3\<rparr>] (5, 7))
     = Inr [\<lparr>tileCoords = (5, 7), pixelCoords = (0, 0), colorId = 5, priority = 500000\<rparr>]"
    by (simp add: fcc_white)
  have c: "deltaE2000 (0, 0, 0) (60, 60, 60) < deltaE2000 (0, 0, 0) (255, 255, 255)"
    using deltaE_black_dark_gray(2) deltaE_black_white by linarith
  from a b c deltaE_black_dark_gray(2) deltaE_black_white show ?thesis by blast
qed
section \<open>The colour cache across passes\<close>

text \<open>
  Claim C3, as amended. Template-to-palette conversions are memoized per exact
  (alpha, R, G, B) key in the cache the manager owns, and the cache is kept from one
  \<open>analyzeTile\<close> invocation to the next: every entry present before a pass is still
  present in the manager the pass returns, the key of every template-opaque pixel the
  pass visited is cached with the id of its nearest palette colour, and every entry of
  the cache (hence every cache hit) holds the id \<open>findClosestColor\<close> returns for that RGB.
\<close>

theorem templateColorCache_persists:
  assumes "templatesToDraw \<noteq> []"
    and "cacheConsistent (templateColorCache tm)"
  shows "\<exists>out tm'. analyzeTile tm dE (Some g) t templatesToDraw tc = Inr (out, tm')
     \<and> templateColorCache tm \<subseteq>\<^sub>m templateColorCache tm'
     \<and> (\<forall>x y. (x, y) \<in> set (loopCoords (tileRect tm templatesToDraw))
            \<and> (pixelTier tm g t x y = Some NewPlacement \<or> pixelTier tm g t x y = Some ColorCorrection)
          \<longrightarrow> templateColorCache tm' (pixelKey tm t x y) = Some (nearestId (rgbAt tm t x y)))
     \<and> (\<forall>a b gr r v. templateColorCache tm' (templateColorKey a b gr r) = Some v
          \<longrightarrow> findClosestColor (rgbOf r gr b) = Inr v)"
proof -
  let ?rect = "tileRect tm templatesToDraw"
  from analyzeTile_pixels[OF assms(1), of tm dE g t tc]
  obtain out cache' where
    px: "analyzePixels tm dE g t tc ?rect (loopCoords ?rect) (templateColorCache tm) = Inr (out, cache')"
    and at: "analyzeTile tm dE (Some g) t templatesToDraw tc
             = Inr (out, tm\<lparr>templateColorCache := cache'\<rparr>)" by blast
  from analyzePixels_consistent[OF px assms(2)]
  have c: "cacheConsistent cache'" and le: "templateColorCache tm \<subseteq>\<^sub>m cache'" by auto
  have st: "\<forall>x y. (x, y) \<in> set (loopCoords ?rect)
            \<and> (pixelTier tm g t x y = Some NewPlacement \<or> pixelTier tm g t x y = Some ColorCorrection)
          \<longrightarrow> cache' (pixelKey tm t x y) = Some (nearestId (rgbAt tm t x y))"
    using analyzePixels_stores[OF px assms(2)] by blast
  have hit: "\<forall>a b gr r v. cache' (templateColorKey a b gr r) = Some v
          \<longrightarrow> findClosestColor (rgbOf r gr b) = Inr v"
    using c unfolding cacheConsistent_def by blast
  show ?thesis
    using at le st hit by (intro exI[of _ out] exI[of _ "tm\<lparr>templateColorCache := cache'\<rparr>"]) simp
qed

text \<open>
  Witness for C3: after a pass over a one-pixel opaque white template the returned
  manager holds the entry for white, and it is the id \<open>findClosestColor\<close> gives.
\<close>

theorem templateColorCache_persists_witness:
  "\<exists>out tm'.
     analyzeTile (newTemplateManager []) (\<lambda>a b. 0)
       (Some (\<lambda>i. 0)) (\<lambda>i. 255) [\<lparr>chunkPixelCoords = (0, 0), bitmapWidth = 3, bitmapHeight = 3\<rparr>] (5, 7)
       = Inr (out, tm')
     \<and> templateColorCache tm' (templateColorKey 255 255 255 255) = Some 5
     \<and> findClosestColor (rgbOf 255 255 255) = Inr 5"
proof -
  let ?tm = "newTemplateManager []"
  let ?tpls = "[\<lparr>chunkPixelCoords = (0, 0), bitmapWidth = 3, bitmapHeight = 3\<rparr>]"
  let ?g = "(\<lambda>i. 0) :: imageData"
  let ?t = "(\<lambda>i. 255) :: imageData"
  have h1: "?tpls \<noteq> []" by simp
  have r: "tileRect ?tm ?tpls = (0, 0, 1, 1)"
    by (simp add: tileRect_def newTemplateManager_def)
  have h2: "(0, 0) \<in> set (loopCoords (tileRect ?tm ?tpls))"
    unfolding r loopCoords_mem by simp
  have h3: "cacheConsistent (templateColorCache ?tm)"
    by (simp add: newTemplateManager_def cacheConsistent_def)
  have tier: "pixelTier ?tm ?g ?t 0 0 = Some NewPlacement"
    by (simp add: pixelTier_def inRaster_def sampleIndex_def alphaAt_def newTemplateManager_def)
  have k: "pixelKey ?tm ?t 0 0 = templateColorKey 255 255 255 255"
    by (simp add: pixelKey_def)
  have c: "rgbAt ?tm ?t 0 0 = (255, 255, 255)"
    by (simp add: rgbAt_def rgbOf_def)
  from templateColorCache_persists[OF h1 h3, of "\<lambda>a b. 0" ?g ?t "(5, 7)"]
  obtain out tm' where at: "analyzeTile ?tm (\<lambda>a b. 0) (Some ?g) ?t ?tpls (5, 7) = Inr (out, tm')"
    and st: "\<forall>x y. (x, y) \<in> set (loopCoords (tileRect ?tm ?tpls))
            \<and> (pixelTier ?tm ?g ?t x y = Some NewPlacement \<or> pixelTier ?tm ?g ?t x y = Some ColorCorrection)
          \<longrightarrow> templateColorCache tm' (pixelKey ?tm ?t x y) = Some (nearestId (rgbAt ?tm ?t x y))"
    and hit: "\<forall>a b gr r v. templateColorCache tm' (templateColorKey a b gr r) = Some v
          \<longrightarrow> findClosestColor (rgbOf r gr b) = Inr v"
    by blast
  from st h2 tier
  have "templateColorCache tm' (pixelKey ?tm ?t 0 0) = Some (nearestId (rgbAt ?tm ?t 0 0))" by blast
  then have s: "templateColorCache tm' (templateColorKey 255 255 255 255) = Some 5"
    unfolding k c fcc_white .
  from hit s have "findClosestColor (rgbOf 255 255 255) = Inr 5" by blast
  with at s show ?thesis by blast
qed

text \<open>
  Counterexample to C3 as stated: a manager fresh from the constructor analyses one
  tile; the manager it returns, with which any later invocation starts, has the
  conversion of opaque white cached.
\<close>

theorem templateColorCache_not_reset:
  "(case analyzeTile (newTemplateManager []) (\<lambda>a b. 0)
       (Some (\<lambda>i. 0)) (\<lambda>i. 255) [\<lparr>chunkPixelCoords = (0, 0), bitmapWidth = 3, bitmapHeight = 3\<rparr>] (5, 7) of
      Inl e \<Rightarrow> None
    | Inr res \<Rightarrow> templateColorCache (snd res) (templateColorKey 255 255 255 255)) = Some 5"
proof -
  let ?tm = "newTemplateManager []"
  let ?tpls = "[\<lparr>chunkPixelCoords = (0, 0), bitmapWidth = 3, bitmapHeight = 3\<rparr>]"
  let ?g = "(\<lambda>i. 0) :: imageData"
  let ?t = "(\<lambda>i. 255) :: imageData"
  have h1: "?tpls \<noteq> []" by simp
  have r: "tileRect ?tm ?tpls = (0, 0, 1, 1)"
    by (simp add: tileRect_def newTemplateManager_def)
  have h2: "(0, 0) \<in> set (loopCoords (tileRect ?tm ?tpls))"
    unfolding r loopCoords_mem by simp
  have h3: "cacheConsistent (templateColorCache ?tm)"
    by (simp add: newTemplateManager_def cacheConsistent_def)
  have tier: "pixelTier ?tm ?g ?t 0 0 = Some NewPlacement"
    by (simp add: pixelTier_def inRaster_def sampleIndex_def alphaAt_def newTemplateManager_def)
  have k: "pixelKey ?tm ?t 0 0 = templateColorKey 255 255 255 255"
    by (simp add: pixelKey_def)
  have c: "rgbAt ?tm ?t 0 0 = (255, 255, 255)"
    by (simp add: rgbAt_def rgbOf_def)
  from analyzeTile_pixels[OF h1, of ?tm "\<lambda>a b. 0" ?g ?t "(5, 7)"]
  obtain out cache' where
    px: "analyzePixels ?tm (\<lambda>a b. 0) ?g ?t (5, 7) (tileRect ?tm ?tpls)
           (loopCoords (tileRect ?tm ?tpls)) (templateColorCache ?tm) = Inr (out, cache')"
    and at: "analyzeTile ?tm (\<lambda>a b. 0) (Some ?g) ?t ?tpls (5, 7)
             = Inr (out, ?tm\<lparr>templateColorCache := cache'\<rparr>)" by blast
  from analyzePixels_stores[OF px h3 h2] tier
  have "cache' (pixelKey ?tm ?t 0 0) = Some (nearestId (rgbAt ?tm ?t 0 0))" by blast
  then have "cache' (templateColorKey 255 255 255 255) = Some 5"
    unfolding k c fcc_white .
  then show ?thesis unfolding at by simp
qed

section \<open>Failure handling of the paint cycle\<close>

subsection \<open>The user's calls and the cancellable wait\<close>

lemma userCalls_Nil: "userCalls [] p = p"
  by (simp add: userCalls_def)

lemma userCalls_Cons:
  "userCalls (c # cs) p = userCalls cs (case c of CallStop \<Rightarrow> stop p | CallStart \<Rightarrow> start p)"
  by (cases c) (simp_all add: userCalls_def)

lemma stop_eq: "stop p = p\<lparr>isPainting := False\<rparr>"
  by (simp add: stop_def)

lemma userCalls_stops:
  assumes "CallStart \<notin> set calls"
  shows "userCalls calls p = p\<lparr>isPainting := isPainting p \<and> CallStop \<notin> set calls\<rparr>"
  using assms
proof (induction calls arbitrary: p)
  case Nil
  then show ?case by (simp add: userCalls_Nil)
next
  case (Cons c cs)
  then have c: "c = CallStop" by (cases c) auto
  from Cons have "userCalls cs (stop p) = (stop p)\<lparr>isPainting := isPainting (stop p) \<and> CallStop \<notin> set cs\<rparr>"
    by simp
  then show ?case by (simp add: userCalls_Cons c stop_eq)
qed

lemma userCalls_failureCount_zero:
  "failureCount p = 0 \<Longrightarrow> failureCount (userCalls calls p) = 0"
proof (induction calls arbitrary: p)
  case Nil
  then show ?case by (simp add: userCalls_Nil)
next
  case (Cons c cs)
  then show ?case by (cases c) (simp_all add: userCalls_Cons stop_def start_def)
qed

lemma tick_tl: "\<forall>t \<in> set ticks. P t \<Longrightarrow> \<forall>t \<in> set (tl ticks). P t"
  by (cases ticks) auto

lemma tickCalls_P: "\<forall>t \<in> set ticks. P (snd t) \<Longrightarrow> P [] \<Longrightarrow> P (tickCalls ticks)"
  by (cases ticks) (auto simp: tickCalls_def)

lemma waitLoop_off: "\<not> isPainting p \<Longrightarrow> waitLoop left ticks p = (left = 0, p)"
  by (subst waitLoop.simps) simp

lemma waitLoop_quiet:
  assumes "\<forall>t \<in> set ticks. snd t = []" "isPainting p"
  shows "waitLoop left ticks p = (True, p)"
  using assms
proof (induction left ticks p rule: waitLoop.induct)
  case (1 left ticks p)
  show ?case
  proof (cases "left = 0")
    case True
    then show ?thesis by (subst waitLoop.simps) simp
  next
    case False
    have c: "tickCalls ticks = []" using "1.prems"(1) by (cases ticks) (auto simp: tickCalls_def)
    have q: "\<forall>t \<in> set (tl ticks). snd t = []" using "1.prems"(1) by (rule tick_tl)
    have "waitLoop (left - (min 300 left + tickLate ticks)) (tl ticks) (userCalls (tickCalls ticks) p)
            = (True, userCalls (tickCalls ticks) p)"
      using False "1.prems"(2) c q by (intro "1.IH") (simp_all add: userCalls_Nil)
    then show ?thesis using False "1.prems"(2) c by (subst waitLoop.simps) (simp add: userCalls_Nil)
  qed
qed

lemma waitLoop_stops:
  assumes "\<forall>t \<in> set ticks. CallStart \<notin> set (snd t)"
  shows "\<exists>ok b. waitLoop left ticks p = (ok, p\<lparr>isPainting := b\<rparr>) \<and> (b \<longrightarrow> ok \<and> isPainting p)"
  using assms
proof (induction left ticks p rule: waitLoop.induct)
  case (1 left ticks p)
  show ?case
  proof (cases "left = 0 \<or> \<not> isPainting p")
    case True
    have "waitLoop left ticks p = (left = 0, p\<lparr>isPainting := isPainting p\<rparr>)"
      using True by (subst waitLoop.simps) auto
    moreover have "isPainting p \<longrightarrow> left = 0 \<and> isPainting p" using True by auto
    ultimately show ?thesis by blast
  next
    case False
    let ?c = "tickCalls ticks"
    have ns: "CallStart \<notin> set ?c" using "1.prems" by (cases ticks) (auto simp: tickCalls_def)
    have u: "userCalls ?c p = p\<lparr>isPainting := isPainting p \<and> CallStop \<notin> set ?c\<rparr>"
      using ns by (rule userCalls_stops)
    from False "1.prems" obtain ok b where
      w: "waitLoop (left - (min 300 left + tickLate ticks)) (tl ticks) (userCalls ?c p)
            = (ok, (userCalls ?c p)\<lparr>isPainting := b\<rparr>)"
      and b: "b \<longrightarrow> ok \<and> isPainting (userCalls ?c p)"
      using "1.IH"[OF _ _ tick_tl] by (metis (no_types, lifting))
    have "waitLoop left ticks p = (ok, (userCalls ?c p)\<lparr>isPainting := b\<rparr>)"
      using False w by (subst waitLoop.simps) simp
    moreover have "(userCalls ?c p)\<lparr>isPainting := b\<rparr> = p\<lparr>isPainting := b\<rparr>" by (simp add: u)
    moreover have "b \<longrightarrow> ok \<and> isPainting p" using b u by simp
    ultimately show ?thesis by metis
  qed
qed

lemma waitLoop_stop_first:
  assumes "\<forall>t \<in> set ticks. CallStart \<notin> set (snd t)"
    and "ticks \<noteq> []" "CallStop \<in> set (snd (hd ticks))" "0 < left"
  shows "snd (waitLoop left ticks p) = p\<lparr>isPainting := False\<rparr>"
proof (cases "isPainting p")
  case False
  then show ?thesis by (simp add: waitLoop_off)
next
  case True
  let ?c = "tickCalls ticks"
  have c: "?c = snd (hd ticks)" using assms(2) by (cases ticks) (auto simp: tickCalls_def)
  have ns: "CallStart \<notin> set ?c" using assms(1,2) by (cases ticks) (auto simp: tickCalls_def)
  have u: "userCalls ?c p = p\<lparr>isPainting := False\<rparr>"
    using userCalls_stops[OF ns, of p] assms(3) c by simp
  have "waitLoop left ticks p
          = waitLoop (left - (min 300 left + tickLate ticks)) (tl ticks) (p\<lparr>isPainting := False\<rparr>)"
    using True assms(4) u by (subst waitLoop.simps) simp
  then show ?thesis by (simp add: waitLoop_off)
qed

lemma waitLoop_stop_during:
  assumes "\<forall>t \<in> set ticks. CallStart \<notin> set (snd t)"
    and "k < length ticks" "CallStop \<in> set (snd (ticks ! k))"
    and "\<forall>j < k. fst (ticks ! j) = 0" "300 * k < left"
  shows "snd (waitLoop left ticks p) = p\<lparr>isPainting := False\<rparr>"
  using assms
proof (induction k arbitrary: left ticks p)
  case 0
  then have "ticks \<noteq> []" "CallStop \<in> set (snd (hd ticks))" "0 < left"
    by (auto simp: hd_conv_nth)
  with "0.prems"(1) show ?case by (intro waitLoop_stop_first)
next
  case (Suc k)
  show ?case
  proof (cases "isPainting p")
    case False
    then show ?thesis by (simp add: waitLoop_off)
  next
    case True
    from Suc.prems(2) obtain t rest where t: "ticks = t # rest" by (cases ticks) auto
    have late: "tickLate ticks = 0" using Suc.prems(4) t by (auto simp: tickLate_def)
    have ns: "CallStart \<notin> set (tickCalls ticks)" using Suc.prems(1) t by (simp add: tickCalls_def)
    have u: "userCalls (tickCalls ticks) p
               = p\<lparr>isPainting := isPainting p \<and> CallStop \<notin> set (tickCalls ticks)\<rparr>"
      using ns by (rule userCalls_stops)
    have l: "min 300 left = 300" "0 < left" using Suc.prems(5) by simp_all
    have step: "waitLoop left ticks p = waitLoop (left - 300) rest (userCalls (tickCalls ticks) p)"
      using True l late t by (subst waitLoop.simps) simp
    have a1: "\<forall>t \<in> set rest. CallStart \<notin> set (snd t)" using Suc.prems(1) t by simp
    have a2: "k < length rest" using Suc.prems(2) t by simp
    have a3: "CallStop \<in> set (snd (rest ! k))" using Suc.prems(3) t by simp
    have a4: "\<forall>j < k. fst (rest ! j) = 0"
    proof (intro allI impI)
      fix j assume "j < k"
      then have "Suc j < Suc k" by simp
      with Suc.prems(4) have "fst (ticks ! Suc j) = 0" by blast
      then show "fst (rest ! j) = 0" using t by simp
    qed
    have a5: "300 * k < left - 300" using Suc.prems(5) by simp
    from Suc.IH[OF a1 a2 a3 a4 a5, of "userCalls (tickCalls ticks) p"]
    have "snd (waitLoop (left - 300) rest (userCalls (tickCalls ticks) p))
            = (userCalls (tickCalls ticks) p)\<lparr>isPainting := False\<rparr>" .
    then show ?thesis unfolding step by (simp add: u)
  qed
qed

lemma waitLoop_failureCount_zero:
  "failureCount p = 0 \<Longrightarrow> failureCount (snd (waitLoop left ticks p)) = 0"
proof (induction left ticks p rule: waitLoop.induct)
  case (1 left ticks p)
  show ?case
  proof (cases "left = 0 \<or> \<not> isPainting p")
    case True
    then show ?thesis using "1.prems" by (subst waitLoop.simps) auto
  next
    case False
    have "failureCount (userCalls (tickCalls ticks) p) = 0"
      using "1.prems" by (rule userCalls_failureCount_zero)
    with False "1.IH" have
      "failureCount (snd (waitLoop (left - (min 300 left + tickLate ticks)) (tl ticks)
                            (userCalls (tickCalls ticks) p))) = 0" by simp
    then show ?thesis using False by (subst waitLoop.simps) simp
  qed
qed

lemma paintCycle_off: "\<not> isPainting p \<Longrightarrow> paintCycle es p = (p\<lparr>isPainting := False\<rparr>, Exited)"
  by (cases es) simp_all

subsection \<open>One iteration of the loop\<close>

lemma paintCycleBody_failed_reload:
  assumes "isPainting (userCalls calls p)"
    and "failureThreshold (userCalls calls p) \<le> failureCount (userCalls calls p) + 1"
  shows "paintCycleBody (StepFailed calls ticks) p
           = ((userCalls calls p)\<lparr>failureCount := failureCount (userCalls calls p) + 1,
                                  actions := actions (userCalls calls p) @ [Reload]\<rparr>, False)"
  using assms by (simp add: paintCycleBody_def Let_def perform_def)

lemma paintCycleBody_failed_backoff:
  assumes "isPainting p0" "p0 = userCalls calls p"
    and "failureCount p0 + 1 < failureThreshold p0"
    and "\<forall>t \<in> set ticks. CallStart \<notin> set (snd t)"
  shows "\<exists>ok b. paintCycleBody (StepFailed calls ticks) p
           = (p0\<lparr>failureCount := failureCount p0 + 1, networkPaused := False,
                 actions := actions p0 @ [SetNetworkPaused, WaitUpTo 10000, ClearNetworkPaused],
                 isPainting := b\<rparr>, ok)
         \<and> (b \<longrightarrow> ok)
         \<and> ((\<forall>t \<in> set ticks. snd t = []) \<longrightarrow> b)
         \<and> ((\<exists>k < length ticks. 300 * k < 10000 \<and> CallStop \<in> set (snd (ticks ! k))
                \<and> (\<forall>j < k. fst (ticks ! j) = 0)) \<longrightarrow> \<not> b)"
proof -
  define q where "q = p0\<lparr>failureCount := failureCount p0 + 1, networkPaused := True,
                         actions := actions p0 @ [SetNetworkPaused, WaitUpTo 10000]\<rparr>"
  have q: "perform (WaitUpTo 10000) (perform SetNetworkPaused (p0\<lparr>failureCount := failureCount p0 + 1\<rparr>)) = q"
    by (simp add: perform_def q_def)
  have q': "perform (WaitUpTo 10000) (perform SetNetworkPaused (p0\<lparr>failureCount := Suc (failureCount p0)\<rparr>)) = q"
    using q by simp
  have qp: "isPainting q" using assms(1) by (simp add: q_def)
  from waitLoop_stops[OF assms(4), of 10000 q] obtain ok b where
    w: "waitLoop 10000 ticks q = (ok, q\<lparr>isPainting := b\<rparr>)" and b: "b \<longrightarrow> ok" by blast
  have body: "paintCycleBody (StepFailed calls ticks) p
           = (perform ClearNetworkPaused (q\<lparr>isPainting := b\<rparr>), ok)"
    using assms(1,3) w
    by (simp add: paintCycleBody_def Let_def assms(2)[symmetric] waitUnlessStopped_def q')
  have r: "perform ClearNetworkPaused (q\<lparr>isPainting := b\<rparr>)
         = p0\<lparr>failureCount := failureCount p0 + 1, networkPaused := False,
                 actions := actions p0 @ [SetNetworkPaused, WaitUpTo 10000, ClearNetworkPaused],
                 isPainting := b\<rparr>"
    by (simp add: perform_def q_def)
  have quiet: "(\<forall>t \<in> set ticks. snd t = []) \<longrightarrow> b"
  proof
    assume "\<forall>t \<in> set ticks. snd t = []"
    then have "waitLoop 10000 ticks q = (True, q)" using qp by (rule waitLoop_quiet)
    with w have "q\<lparr>isPainting := b\<rparr> = q" by simp
    then have "isPainting (q\<lparr>isPainting := b\<rparr>) = isPainting q" by simp
    then show b using qp by simp
  qed
  have first: "(\<exists>k < length ticks. 300 * k < 10000 \<and> CallStop \<in> set (snd (ticks ! k))
                \<and> (\<forall>j < k. fst (ticks ! j) = 0)) \<longrightarrow> \<not> b"
  proof
    assume "\<exists>k < length ticks. 300 * k < 10000 \<and> CallStop \<in> set (snd (ticks ! k))
                \<and> (\<forall>j < k. fst (ticks ! j) = 0)"
    then obtain k where k: "k < length ticks" "300 * k < 10000" "CallStop \<in> set (snd (ticks ! k))"
      "\<forall>j < k. fst (ticks ! j) = 0" by blast
    have "snd (waitLoop 10000 ticks q) = q\<lparr>isPainting := False\<rparr>"
      using assms(4) k(1) k(3) k(4) k(2) by (rule waitLoop_stop_during)
    with w have "q\<lparr>isPainting := b\<rparr> = q\<lparr>isPainting := False\<rparr>" by simp
    then have "isPainting (q\<lparr>isPainting := b\<rparr>) = isPainting (q\<lparr>isPainting := False\<rparr>)" by simp
    then show "\<not> b" by simp
  qed
  from body r b quiet first show ?thesis by metis
qed

lemma paintCycleBody_canvas:
  assumes "isPainting p" "\<forall>t \<in> set ticks. CallStart \<notin> set (snd t)"
  shows "\<exists>ok b. paintCycleBody (CanvasMissing ticks) p
           = (p\<lparr>actions := actions p @ [WaitUpTo 5000], isPainting := b\<rparr>, ok)
         \<and> (b \<longrightarrow> ok)
         \<and> ((\<forall>t \<in> set ticks. snd t = []) \<longrightarrow> b)
         \<and> ((\<exists>k < length ticks. 300 * k < 5000 \<and> CallStop \<in> set (snd (ticks ! k))
                \<and> (\<forall>j < k. fst (ticks ! j) = 0)) \<longrightarrow> \<not> b)"
proof -
  define q where "q = p\<lparr>actions := actions p @ [WaitUpTo 5000]\<rparr>"
  have q: "perform (WaitUpTo 5000) p = q" by (simp add: perform_def q_def)
  have qp: "isPainting q" using assms(1) by (simp add: q_def)
  from waitLoop_stops[OF assms(2), of 5000 q] obtain ok b where
    w: "waitLoop 5000 ticks q = (ok, q\<lparr>isPainting := b\<rparr>)" and b: "b \<longrightarrow> ok" by blast
  have body: "paintCycleBody (CanvasMissing ticks) p
           = (p\<lparr>actions := actions p @ [WaitUpTo 5000], isPainting := b\<rparr>, ok)"
    using w by (simp add: paintCycleBody_def waitUnlessStopped_def q) (simp add: q_def)
  have quiet: "(\<forall>t \<in> set ticks. snd t = []) \<longrightarrow> b"
  proof
    assume "\<forall>t \<in> set ticks. snd t = []"
    then have "waitLoop 5000 ticks q = (True, q)" using qp by (rule waitLoop_quiet)
    with w have "q\<lparr>isPainting := b\<rparr> = q" by simp
    then have "isPainting (q\<lparr>isPainting := b\<rparr>) = isPainting q" by simp
    then show b using qp by simp
  qed
  have first: "(\<exists>k < length ticks. 300 * k < 5000 \<and> CallStop \<in> set (snd (ticks ! k))
                \<and> (\<forall>j < k. fst (ticks ! j) = 0)) \<longrightarrow> \<not> b"
  proof
    assume "\<exists>k < length ticks. 300 * k < 5000 \<and> CallStop \<in> set (snd (ticks ! k))
                \<and> (\<forall>j < k. fst (ticks ! j) = 0)"
    then obtain k where k: "k < length ticks" "300 * k < 5000" "CallStop \<in> set (snd (ticks ! k))"
      "\<forall>j < k. fst (ticks ! j) = 0" by blast
    have "snd (waitLoop 5000 ticks q) = q\<lparr>isPainting := False\<rparr>"
      using assms(2) k(1) k(3) k(4) k(2) by (rule waitLoop_stop_during)
    with w have "q\<lparr>isPainting := b\<rparr> = q\<lparr>isPainting := False\<rparr>" by simp
    then have "isPainting (q\<lparr>isPainting := b\<rparr>) = isPainting (q\<lparr>isPainting := False\<rparr>)" by simp
    then show "\<not> b" by simp
  qed
  from body b quiet first show ?thesis by metis
qed

lemma paintCycle_step:
  assumes "isPainting p" "paintCycleBody e p = (p', ok)" "isPainting p' \<longrightarrow> ok"
  shows "paintCycle (e # es) p
           = (if isPainting p' then paintCycle es p' else (p'\<lparr>isPainting := False\<rparr>, Exited))"
proof (cases ok)
  case True
  then show ?thesis using assms by (simp add: paintCycle_off)
next
  case False
  then show ?thesis using assms by auto
qed

lemma paintCycleBody_success_count:
  "failureCount (fst (paintCycleBody (QuickPaintDone calls ms ticks) p)) = 0"
proof -
  define p1 where "p1 = (onQuickPaintFinished (userCalls calls p))\<lparr>failureCount := 0\<rparr>"
  define q where "q = perform (WaitUpTo ms) (perform SetNetworkPaused p1)"
  have "failureCount q = 0" by (simp add: q_def p1_def perform_def)
  then have z: "failureCount (snd (waitLoop ms ticks q)) = 0" by (rule waitLoop_failureCount_zero)
  obtain w r where w: "waitLoop ms ticks q = (w, r)" by (cases "waitLoop ms ticks q")
  with z have "failureCount r = 0" by simp
  then show ?thesis
    using w unfolding q_def p1_def
    by (simp add: paintCycleBody_def Let_def waitUnlessStopped_def perform_def)
qed

subsection \<open>The claim\<close>

text \<open>
  Claim C6, as amended. In an iteration entered while the controller is running, a
  step that rejects while the controller is (still) running increments the failure
  counter by one. If the counter thereby reaches the threshold (3 from the
  constructor), the controller performs exactly one page reload and leaves the loop,
  whatever would come next. Otherwise it sets the network-paused flag, enters the
  10-second wait, clears the flag, and goes on to the next iteration if it is still
  running after the wait: it is when nobody calls \<open>stop()\<close> during the wait, and it
  is not when \<open>stop()\<close> is called during one of the sleeps of the wait (the sleeps
  before that one ending on time). A missing canvas is handled apart: the counter,
  the threshold test and the network-paused flag are not touched, the wait is the
  5-second one, cancellable in the same way, and the loop goes on if the controller
  is still running after it. A successful cycle leaves the counter at 0, and so does
  \<open>start()\<close> on a controller that is not running. The statements about the waits are
  for waits during which \<open>start()\<close> is not called.
\<close>

theorem paintCycle_failure_handling:
  assumes "isPainting p"
    and "p0 = userCalls calls p"
    and "isPainting p0"
    and "\<forall>t \<in> set ticks. CallStart \<notin> set (snd t)"
  shows "(failureThreshold p0 \<le> failureCount p0 + 1 \<longrightarrow>
            paintCycle (StepFailed calls ticks # es) p
              = (p0\<lparr>isPainting := False, failureCount := failureCount p0 + 1,
                    actions := actions p0 @ [Reload]\<rparr>, Exited))
     \<and> (failureCount p0 + 1 < failureThreshold p0 \<longrightarrow>
           (\<exists>b. paintCycle (StepFailed calls ticks # es) p
                  = (if b
                     then paintCycle es
                            (p0\<lparr>failureCount := failureCount p0 + 1, networkPaused := False,
                                actions := actions p0 @ [SetNetworkPaused, WaitUpTo 10000, ClearNetworkPaused]\<rparr>)
                     else (p0\<lparr>isPainting := False, failureCount := failureCount p0 + 1,
                              networkPaused := False,
                              actions := actions p0 @ [SetNetworkPaused, WaitUpTo 10000, ClearNetworkPaused]\<rparr>,
                           Exited))
              \<and> ((\<forall>t \<in> set ticks. snd t = []) \<longrightarrow> b)
              \<and> ((\<exists>k < length ticks. 300 * k < 10000 \<and> CallStop \<in> set (snd (ticks ! k))
                     \<and> (\<forall>j < k. fst (ticks ! j) = 0)) \<longrightarrow> \<not> b)))
     \<and> (\<exists>b. paintCycle (CanvasMissing ticks # es) p
                = (if b then paintCycle es (p\<lparr>actions := actions p @ [WaitUpTo 5000]\<rparr>)
                   else (p\<lparr>isPainting := False, actions := actions p @ [WaitUpTo 5000]\<rparr>, Exited))
            \<and> ((\<forall>t \<in> set ticks. snd t = []) \<longrightarrow> b)
            \<and> ((\<exists>k < length ticks. 300 * k < 5000 \<and> CallStop \<in> set (snd (ticks ! k))
                   \<and> (\<forall>j < k. fst (ticks ! j) = 0)) \<longrightarrow> \<not> b))
     \<and> failureCount (fst (paintCycleBody (QuickPaintDone calls' ms ticks') p)) = 0
     \<and> (\<not> isPainting q \<longrightarrow> isPainting (start q) \<and> failureCount (start q) = 0)
     \<and> failureThreshold newAutoPainter = 3"
proof -
  have a: "failureThreshold p0 \<le> failureCount p0 + 1 \<longrightarrow>
            paintCycle (StepFailed calls ticks # es) p
              = (p0\<lparr>isPainting := False, failureCount := failureCount p0 + 1,
                    actions := actions p0 @ [Reload]\<rparr>, Exited)"
  proof
    assume t: "failureThreshold p0 \<le> failureCount p0 + 1"
    from paintCycleBody_failed_reload[of calls p ticks] assms(3) t
    have "paintCycleBody (StepFailed calls ticks) p
            = (p0\<lparr>failureCount := failureCount p0 + 1, actions := actions p0 @ [Reload]\<rparr>, False)"
      unfolding assms(2) by simp
    then show "paintCycle (StepFailed calls ticks # es) p
              = (p0\<lparr>isPainting := False, failureCount := failureCount p0 + 1,
                    actions := actions p0 @ [Reload]\<rparr>, Exited)"
      using assms(1) by simp
  qed
  have b: "failureCount p0 + 1 < failureThreshold p0 \<longrightarrow>
           (\<exists>b. paintCycle (StepFailed calls ticks # es) p
                  = (if b
                     then paintCycle es
                            (p0\<lparr>failureCount := failureCount p0 + 1, networkPaused := False,
                                actions := actions p0 @ [SetNetworkPaused, WaitUpTo 10000, ClearNetworkPaused]\<rparr>)
                     else (p0\<lparr>isPainting := False, failureCount := failureCount p0 + 1,
                              networkPaused := False,
                              actions := actions p0 @ [SetNetworkPaused, WaitUpTo 10000, ClearNetworkPaused]\<rparr>,
                           Exited))
              \<and> ((\<forall>t \<in> set ticks. snd t = []) \<longrightarrow> b)
              \<and> ((\<exists>k < length ticks. 300 * k < 10000 \<and> CallStop \<in> set (snd (ticks ! k))
                     \<and> (\<forall>j < k. fst (ticks ! j) = 0)) \<longrightarrow> \<not> b))"
  proof
    assume t: "failureCount p0 + 1 < failureThreshold p0"
    let ?r = "p0\<lparr>failureCount := failureCount p0 + 1, networkPaused := False,
                  actions := actions p0 @ [SetNetworkPaused, WaitUpTo 10000, ClearNetworkPaused]\<rparr>"
    from paintCycleBody_failed_backoff[OF assms(3) assms(2) t assms(4)]
    obtain ok b where
      body: "paintCycleBody (StepFailed calls ticks) p = (?r\<lparr>isPainting := b\<rparr>, ok)"
      and ok: "b \<longrightarrow> ok"
      and quiet: "(\<forall>t \<in> set ticks. snd t = []) \<longrightarrow> b"
      and first: "(\<exists>k < length ticks. 300 * k < 10000 \<and> CallStop \<in> set (snd (ticks ! k))
                     \<and> (\<forall>j < k. fst (ticks ! j) = 0)) \<longrightarrow> \<not> b"
      by blast
    have "isPainting (?r\<lparr>isPainting := b\<rparr>) \<longrightarrow> ok" using ok by simp
    from paintCycle_step[OF assms(1) body this, of es]
    have "paintCycle (StepFailed calls ticks # es) p
            = (if b then paintCycle es (?r\<lparr>isPainting := b\<rparr>)
               else (?r\<lparr>isPainting := False\<rparr>, Exited))" by simp
    moreover have "b \<Longrightarrow> ?r\<lparr>isPainting := b\<rparr> = ?r" using assms(3) by simp
    ultimately have "paintCycle (StepFailed calls ticks # es) p
            = (if b then paintCycle es ?r else (?r\<lparr>isPainting := False\<rparr>, Exited))"
      by (cases b) simp_all
    then have "paintCycle (StepFailed calls ticks # es) p
                  = (if b then paintCycle es ?r
                     else (p0\<lparr>isPainting := False, failureCount := failureCount p0 + 1,
                              networkPaused := False,
                              actions := actions p0 @ [SetNetworkPaused, WaitUpTo 10000, ClearNetworkPaused]\<rparr>,
                           Exited))" by simp
    with quiet first
    show "\<exists>b. paintCycle (StepFailed calls ticks # es) p
                  = (if b then paintCycle es ?r
                     else (p0\<lparr>isPainting := False, failureCount := failureCount p0 + 1,
                              networkPaused := False,
                              actions := actions p0 @ [SetNetworkPaused, WaitUpTo 10000, ClearNetworkPaused]\<rparr>,
                           Exited))
              \<and> ((\<forall>t \<in> set ticks. snd t = []) \<longrightarrow> b)
              \<and> ((\<exists>k < length ticks. 300 * k < 10000 \<and> CallStop \<in> set (snd (ticks ! k))
                     \<and> (\<forall>j < k. fst (ticks ! j) = 0)) \<longrightarrow> \<not> b)"
      by blast
  qed
  have c: "\<exists>b. paintCycle (CanvasMissing ticks # es) p
                = (if b then paintCycle es (p\<lparr>actions := actions p @ [WaitUpTo 5000]\<rparr>)
                   else (p\<lparr>isPainting := False, actions := actions p @ [WaitUpTo 5000]\<rparr>, Exited))
            \<and> ((\<forall>t \<in> set ticks. snd t = []) \<longrightarrow> b)
            \<and> ((\<exists>k < length ticks. 300 * k < 5000 \<and> CallStop \<in> set (snd (ticks ! k))
                   \<and> (\<forall>j < k. fst (ticks ! j) = 0)) \<longrightarrow> \<not> b)"
  proof -
    let ?r = "p\<lparr>actions := actions p @ [WaitUpTo 5000]\<rparr>"
    from paintCycleBody_canvas[OF assms(1) assms(4)]
    obtain ok b where
      body: "paintCycleBody (CanvasMissing ticks) p = (?r\<lparr>isPainting := b\<rparr>, ok)"
      and ok: "b \<longrightarrow> ok"
      and quiet: "(\<forall>t \<in> set ticks. snd t = []) \<longrightarrow> b"
      and first: "(\<exists>k < length ticks. 300 * k < 5000 \<and> CallStop \<in> set (snd (ticks ! k))
                   \<and> (\<forall>j < k. fst (ticks ! j) = 0)) \<longrightarrow> \<not> b"
      by blast
    have "isPainting (?r\<lparr>isPainting := b\<rparr>) \<longrightarrow> ok" using ok by simp
    from paintCycle_step[OF assms(1) body this, of es]
    have "paintCycle (CanvasMissing ticks # es) p
            = (if b then paintCycle es (?r\<lparr>isPainting := b\<rparr>)
               else (?r\<lparr>isPainting := False\<rparr>, Exited))" by simp
    moreover have "b \<Longrightarrow> ?r\<lparr>isPainting := b\<rparr> = ?r" using assms(1) by simp
    ultimately have "paintCycle (CanvasMissing ticks # es) p
            = (if b then paintCycle es ?r else (?r\<lparr>isPainting := False\<rparr>, Exited))"
      by (cases b) simp_all
    then have "paintCycle (CanvasMissing ticks # es) p
                = (if b then paintCycle es ?r
                   else (p\<lparr>isPainting := False, actions := actions p @ [WaitUpTo 5000]\<rparr>, Exited))"
      by simp
    with quiet first show ?thesis by blast
  qed
  have d: "failureCount (fst (paintCycleBody (QuickPaintDone calls' ms ticks') p)) = 0"
    by (rule paintCycleBody_success_count)
  have e: "\<not> isPainting q \<longrightarrow> isPainting (start q) \<and> failureCount (start q) = 0"
    by (simp add: start_def)
  have f: "failureThreshold newAutoPainter = 3" by (simp add: newAutoPainter_def)
  from a b c d e f show ?thesis by blast
qed

text \<open>
  Witness for C6: a started controller meets three step failures in a row, nobody
  interfering; it backs off twice, then reloads exactly once and leaves the loop
  without looking at the fourth event.
\<close>

theorem paintCycle_failure_handling_witness:
  "paintCycle [StepFailed [] [], StepFailed [] [], StepFailed [] [], QuickPaintDone [] 0 []]
     (start newAutoPainter)
     = (\<lparr>isPainting = False, isCooldown = False, failureCount = 3, failureThreshold = 3,
         networkPaused = False,
         actions = [SetNetworkPaused, WaitUpTo 10000, ClearNetworkPaused,
                    SetNetworkPaused, WaitUpTo 10000, ClearNetworkPaused, Reload]\<rparr>, Exited)"
proof -
  note paintCycle.simps [simp del]
  let ?e = "StepFailed [] []"
  let ?q = "QuickPaintDone [] 0 []"
  let ?p0 = "start newAutoPainter"
  let ?p1 = "?p0\<lparr>failureCount := failureCount ?p0 + 1, networkPaused := False,
                   actions := actions ?p0 @ [SetNetworkPaused, WaitUpTo 10000, ClearNetworkPaused]\<rparr>"
  let ?p2 = "?p1\<lparr>failureCount := failureCount ?p1 + 1, networkPaused := False,
                   actions := actions ?p1 @ [SetNetworkPaused, WaitUpTo 10000, ClearNetworkPaused]\<rparr>"
  have quiet: "\<forall>t \<in> set ([] :: tick list). CallStart \<notin> set (snd t)" by simp
  have still: "\<forall>t \<in> set ([] :: tick list). snd t = []" by simp
  have p0: "isPainting ?p0" "?p0 = userCalls [] ?p0" "failureCount ?p0 + 1 < failureThreshold ?p0"
    by (simp_all add: start_def newAutoPainter_def userCalls_Nil)
  have p1: "isPainting ?p1" "?p1 = userCalls [] ?p1" "failureCount ?p1 + 1 < failureThreshold ?p1"
    by (simp_all add: start_def newAutoPainter_def userCalls_Nil)
  have p2: "isPainting ?p2" "?p2 = userCalls [] ?p2" "failureThreshold ?p2 \<le> failureCount ?p2 + 1"
    by (simp_all add: start_def newAutoPainter_def userCalls_Nil)
  from paintCycle_failure_handling[OF p0(1) p0(2) p0(1) quiet,
         where es = "[?e, ?e, ?q]" and calls' = "[]" and ms = 0 and ticks' = "[]" and q = newAutoPainter,
         THEN conjunct2, THEN conjunct1, rule_format, OF p0(3)] still
  have s1: "paintCycle [?e, ?e, ?e, ?q] ?p0 = paintCycle [?e, ?e, ?q] ?p1" by auto
  from paintCycle_failure_handling[OF p1(1) p1(2) p1(1) quiet,
         where es = "[?e, ?q]" and calls' = "[]" and ms = 0 and ticks' = "[]" and q = newAutoPainter,
         THEN conjunct2, THEN conjunct1, rule_format, OF p1(3)] still
  have s2: "paintCycle [?e, ?e, ?q] ?p1 = paintCycle [?e, ?q] ?p2" by auto
  from paintCycle_failure_handling[OF p2(1) p2(2) p2(1) quiet,
         where es = "[?q]" and calls' = "[]" and ms = 0 and ticks' = "[]" and q = newAutoPainter,
         THEN conjunct1, rule_format, OF p2(3)]
  have s3: "paintCycle [?e, ?q] ?p2
             = (?p2\<lparr>isPainting := False, failureCount := failureCount ?p2 + 1,
                    actions := actions ?p2 @ [Reload]\<rparr>, Exited)" .
  show ?thesis
    unfolding s1 s2 s3 by (simp add: start_def newAutoPainter_def)
qed

text \<open>
  Counterexample to C6 as stated: on a started controller the canvas is missing four
  times in a row. Each of these failed steps leaves the counter at 0; no reload
  happens at the third or fourth, the network-paused flag is never set, the waits are
  the 5-second ones, and the loop is still running.
\<close>

theorem paintCycle_canvas_missing_uncounted:
  "paintCycle [CanvasMissing [], CanvasMissing [], CanvasMissing [], CanvasMissing []]
     (start newAutoPainter)
     = (\<lparr>isPainting = True, isCooldown = False, failureCount = 0, failureThreshold = 3,
         networkPaused = False,
         actions = [WaitUpTo 5000, WaitUpTo 5000, WaitUpTo 5000, WaitUpTo 5000]\<rparr>, Suspended)"
proof -
  have q: "\<And>p. isPainting p \<Longrightarrow> paintCycleBody (CanvasMissing []) p
             = (p\<lparr>actions := actions p @ [WaitUpTo 5000]\<rparr>, True)"
  proof -
    fix p :: autoPainter
    assume "isPainting p"
    then have "waitLoop 5000 [] (perform (WaitUpTo 5000) p) = (True, perform (WaitUpTo 5000) p)"
      by (intro waitLoop_quiet) (simp_all add: perform_def)
    then show "paintCycleBody (CanvasMissing []) p = (p\<lparr>actions := actions p @ [WaitUpTo 5000]\<rparr>, True)"
      by (simp add: paintCycleBody_def waitUnlessStopped_def perform_def)
  qed
  show ?thesis by (simp add: q start_def newAutoPainter_def)
qed
section \<open>Removing painted pixels from the queue\<close>

lemma digit_nth: "d < 10 \<Longrightarrow> isDigit (''0123456789'' ! d) \<and> digitVal (''0123456789'' ! d) = d"
proof -
  assume "d < 10"
  then have "d \<in> {0,1,2,3,4,5,6,7,8,9}" by auto
  then show ?thesis by (auto simp: isDigit_def digitVal_def)
qed

lemma showNat_digits: "\<forall>c \<in> set (showNat n). isDigit c"
proof (induction n rule: showNat.induct)
  case (1 n)
  show ?case
  proof (cases "n < 10")
    case True
    then show ?thesis using digit_nth[of n] by (subst showNat.simps) simp
  next
    case False
    then show ?thesis using 1 digit_nth[of "n mod 10"] by (subst showNat.simps) auto
  qed
qed

lemma showNat_nonempty: "showNat n \<noteq> []"
  by (subst showNat.simps) simp

lemma showNat_value: "foldl (\<lambda>acc c. 10 * acc + digitVal c) 0 (showNat n) = n"
proof (induction n rule: showNat.induct)
  case (1 n)
  show ?case
  proof (cases "n < 10")
    case True
    then show ?thesis using digit_nth[of n] by (subst showNat.simps) simp
  next
    case False
    then show ?thesis using 1 digit_nth[of "n mod 10"] by (subst showNat.simps) simp
  qed
qed

lemma showNat_inj:
  assumes "showNat n = showNat m"
  shows "n = m"
proof -
  have "foldl (\<lambda>acc c. 10 * acc + digitVal c) 0 (showNat n)
      = foldl (\<lambda>acc c. 10 * acc + digitVal c) 0 (showNat m)"
    by (rule arg_cong[OF assms])
  then show ?thesis unfolding showNat_value .
qed

lemma minus_not_digit: "\<not> isDigit CHR ''-''" and comma_not_digit: "\<not> isDigit CHR '',''"
  by (simp_all add: isDigit_def)

lemma starts_minus: "CHR ''-'' # xs = ys \<Longrightarrow> hd ys = CHR ''-''"
  by auto

lemma showInt_inj: "showInt a = showInt b \<Longrightarrow> a = b"
proof -
  assume e: "showInt a = showInt b"
  have hd: "\<And>n. isDigit (hd (showNat n))"
  proof -
    fix n
    have "hd (showNat n) \<in> set (showNat n)" using showNat_nonempty by simp
    then show "isDigit (hd (showNat n))" using showNat_digits by blast
  qed
  show ?thesis
  proof (cases "a < 0")
    case True
    show ?thesis
    proof (cases "b < 0")
      case b: True
      then have "showNat (nat (- a)) = showNat (nat (- b))" using e True by (simp add: showInt_def)
      then have "nat (- a) = nat (- b)" by (rule showNat_inj)
      then show ?thesis using True b by simp
    next
      case b: False
      then have "CHR ''-'' # showNat (nat (- a)) = showNat (nat b)" using e True by (simp add: showInt_def)
      then have "hd (showNat (nat b)) = CHR ''-''" by (rule starts_minus)
      then show ?thesis using hd[of "nat b"] minus_not_digit by simp
    qed
  next
    case False
    show ?thesis
    proof (cases "b < 0")
      case b: True
      then have "showNat (nat a) = CHR ''-'' # showNat (nat (- b))" using e False by (simp add: showInt_def)
      then have "hd (showNat (nat a)) = CHR ''-''" by (rule starts_minus[OF sym])
      then show ?thesis using hd[of "nat a"] minus_not_digit by simp
    next
      case b: False
      then have "showNat (nat a) = showNat (nat b)" using e False by (simp add: showInt_def)
      then have "nat a = nat b" by (rule showNat_inj)
      then show ?thesis using False b by simp
    qed
  qed
qed

lemma split_at_sep:
  assumes "xs @ c # ys = xs' @ c # ys'" "c \<notin> set xs" "c \<notin> set xs'"
  shows "xs = xs' \<and> ys = ys'"
  using assms
proof (induction xs arbitrary: xs')
  case Nil
  then show ?case by (cases xs') auto
next
  case (Cons x xs)
  then show ?case by (cases xs') auto
qed

lemma showInt_no_comma: "CHR '','' \<notin> set (showInt a)"
  using showNat_digits comma_not_digit by (auto simp: showInt_def)

text \<open>An optional sign followed by digits, then the separator: the digits end at the separator.\<close>

lemma showInt_then_minus:
  assumes "showInt a @ CHR ''-'' # r = showInt b @ CHR ''-'' # r'"
  shows "a = b \<and> r = r'"
proof -
  have nd: "\<And>n. CHR ''-'' \<notin> set (showNat n)" using showNat_digits minus_not_digit by auto
  have hd: "\<And>n. hd (showNat n) \<noteq> CHR ''-''"
  proof -
    fix n
    have "hd (showNat n) \<in> set (showNat n)" using showNat_nonempty by simp
    then show "hd (showNat n) \<noteq> CHR ''-''" using nd by metis
  qed
  have hdapp: "\<And>n t. hd (showNat n @ t) = hd (showNat n)" using showNat_nonempty by simp
  show ?thesis
  proof (cases "a < 0")
    case True
    show ?thesis
    proof (cases "b < 0")
      case b: True
      then have "showNat (nat (- a)) @ CHR ''-'' # r = showNat (nat (- b)) @ CHR ''-'' # r'"
        using assms True by (simp add: showInt_def)
      from split_at_sep[OF this nd nd] have "nat (- a) = nat (- b)" "r = r'" using showNat_inj by auto
      then show ?thesis using True b by simp
    next
      case b: False
      then have "CHR ''-'' # showNat (nat (- a)) @ CHR ''-'' # r = showNat (nat b) @ CHR ''-'' # r'"
        using assms True by (simp add: showInt_def)
      then have "hd (showNat (nat b) @ CHR ''-'' # r') = CHR ''-''" by (rule starts_minus)
      then show ?thesis using hd[of "nat b"] hdapp by simp
    qed
  next
    case False
    show ?thesis
    proof (cases "b < 0")
      case b: True
      then have "showNat (nat a) @ CHR ''-'' # r = CHR ''-'' # showNat (nat (- b)) @ CHR ''-'' # r'"
        using assms False by (simp add: showInt_def)
      then have "hd (showNat (nat a) @ CHR ''-'' # r) = CHR ''-''" by (rule starts_minus[OF sym])
      then show ?thesis using hd[of "nat a"] hdapp by simp
    next
      case b: False
      then have "showNat (nat a) @ CHR ''-'' # r = showNat (nat b) @ CHR ''-'' # r'"
        using assms False by (simp add: showInt_def)
      from split_at_sep[OF this nd nd] have "nat a = nat b" "r = r'" using showNat_inj by auto
      then show ?thesis using False b by simp
    qed
  qed
qed

lemma paintedKey_inj:
  assumes "paintedKey p = paintedKey q"
  shows "tileCoords p = tileCoords q \<and> pixelCoords p = pixelCoords q"
proof -
  obtain a b where t: "tileCoords p = (a, b)" by (cases "tileCoords p") auto
  obtain c d where x: "pixelCoords p = (c, d)" by (cases "pixelCoords p") auto
  obtain a' b' where t': "tileCoords q = (a', b')" by (cases "tileCoords q") auto
  obtain c' d' where x': "pixelCoords q = (c', d')" by (cases "pixelCoords q") auto
  from assms have e: "showInt a @ CHR '','' # (showInt b @ CHR ''-'' # showInt c @ CHR '','' # showInt d)
      = showInt a' @ CHR '','' # (showInt b' @ CHR ''-'' # showInt c' @ CHR '','' # showInt d')"
    by (simp add: paintedKey_def joinComma_def t x t' x')
  from split_at_sep[OF e showInt_no_comma showInt_no_comma]
  have a: "showInt a = showInt a'"
    and r: "showInt b @ CHR ''-'' # showInt c @ CHR '','' # showInt d
          = showInt b' @ CHR ''-'' # showInt c' @ CHR '','' # showInt d'" by auto
  from showInt_then_minus[OF r]
  have b: "b = b'" and r2: "showInt c @ CHR '','' # showInt d = showInt c' @ CHR '','' # showInt d'" by auto
  from split_at_sep[OF r2 showInt_no_comma showInt_no_comma]
  have "showInt c = showInt c'" "showInt d = showInt d'" by auto
  then show ?thesis using a b showInt_inj t x t' x' by auto
qed



lemma paintedKey_eq_iff:
  "paintedKey p = paintedKey q \<longleftrightarrow> tileCoords p = tileCoords q \<and> pixelCoords p = pixelCoords q"
  using paintedKey_inj[of p q] by (auto simp: paintedKey_def)

lemma removePainted_coords:
  "removePainted pixelsToPaint queue
     = filter (\<lambda>q. \<forall>p \<in> set pixelsToPaint. \<not> (tileCoords q = tileCoords p \<and> pixelCoords q = pixelCoords p)) queue"
proof -
  have "\<And>q. paintedKey q \<notin> set (map paintedKey pixelsToPaint)
         \<longleftrightarrow> (\<forall>p \<in> set pixelsToPaint. \<not> (tileCoords q = tileCoords p \<and> pixelCoords q = pixelCoords p))"
    using paintedKey_eq_iff by auto
  then show ?thesis by (simp add: removePainted_def)
qed

lemma removePainted_subset: "set (removePainted pixelsToPaint queue) \<subseteq> set queue"
  by (auto simp: removePainted_def Let_def)

lemma executeQuickPaint_queue:
  assumes "painted (executeQuickPaint tm h full cur mx res av pw rnd) \<noteq> []"
  shows "pixelQueue (manager (executeQuickPaint tm h full cur mx res av pw rnd))
           = removePainted (painted (executeQuickPaint tm h full cur mx res av pw rnd)) full"
  using assms by (simp add: executeQuickPaint_def Let_def split: if_splits)

text \<open>
  Claim C7. After a submission, no pixel with the tile and pixel coordinates of a
  submitted pixel is left in the queue; removing the same set of pixels a second time
  changes nothing; removing pixels none of whose coordinates occur in the queue leaves
  the queue as it is (the removal is a filter and cannot fail); and whenever
  \<open>executeQuickPaint\<close> paints, the queue it leaves is the analysed queue with the painted
  pixels removed in this way.
\<close>

theorem removePainted_idempotent:
  "(\<forall>p \<in> set pixelsToPaint. \<forall>q \<in> set (removePainted pixelsToPaint queue).
       \<not> (tileCoords q = tileCoords p \<and> pixelCoords q = pixelCoords p))
   \<and> removePainted pixelsToPaint (removePainted pixelsToPaint queue) = removePainted pixelsToPaint queue
   \<and> ((\<forall>p \<in> set pixelsToPaint. \<forall>q \<in> set queue.
          \<not> (tileCoords q = tileCoords p \<and> pixelCoords q = pixelCoords p))
        \<longrightarrow> removePainted pixelsToPaint queue = queue)
   \<and> (painted (executeQuickPaint tm h full cur mx res av pw rnd) \<noteq> []
        \<longrightarrow> pixelQueue (manager (executeQuickPaint tm h full cur mx res av pw rnd))
              = removePainted (painted (executeQuickPaint tm h full cur mx res av pw rnd)) full)"
proof -
  have a: "\<forall>p \<in> set pixelsToPaint. \<forall>q \<in> set (removePainted pixelsToPaint queue).
       \<not> (tileCoords q = tileCoords p \<and> pixelCoords q = pixelCoords p)"
    unfolding removePainted_coords by auto
  have b: "removePainted pixelsToPaint (removePainted pixelsToPaint queue) = removePainted pixelsToPaint queue"
    unfolding removePainted_coords by simp
  have c: "(\<forall>p \<in> set pixelsToPaint. \<forall>q \<in> set queue.
          \<not> (tileCoords q = tileCoords p \<and> pixelCoords q = pixelCoords p))
        \<longrightarrow> removePainted pixelsToPaint queue = queue"
    unfolding removePainted_coords by (auto simp: filter_id_conv)
  show ?thesis using a b c executeQuickPaint_queue by blast
qed

text \<open>
  Witness for C7: removing a pixel that is not in the queue, and removing a pixel
  (once and twice) from a queue that holds another candidate at its coordinates.
\<close>

theorem removePainted_idempotent_witness:
  "removePainted [\<lparr>tileCoords = (1, 2), pixelCoords = (3, 4), colorId = 5, priority = 1\<rparr>]
       [\<lparr>tileCoords = (1, 2), pixelCoords = (5, 6), colorId = 7, priority = 2\<rparr>]
     = [\<lparr>tileCoords = (1, 2), pixelCoords = (5, 6), colorId = 7, priority = 2\<rparr>]
   \<and> removePainted [\<lparr>tileCoords = (1, 2), pixelCoords = (3, 4), colorId = 5, priority = 1\<rparr>]
       (removePainted [\<lparr>tileCoords = (1, 2), pixelCoords = (3, 4), colorId = 5, priority = 1\<rparr>]
          [\<lparr>tileCoords = (1, 2), pixelCoords = (3, 4), colorId = 7, priority = 2\<rparr>])
     = removePainted [\<lparr>tileCoords = (1, 2), pixelCoords = (3, 4), colorId = 5, priority = 1\<rparr>]
          [\<lparr>tileCoords = (1, 2), pixelCoords = (3, 4), colorId = 7, priority = 2\<rparr>]
   \<and> removePainted [\<lparr>tileCoords = (1, 2), pixelCoords = (3, 4), colorId = 5, priority = 1\<rparr>]
          [\<lparr>tileCoords = (1, 2), pixelCoords = (3, 4), colorId = 7, priority = 2\<rparr>] = []"
proof -
  let ?p = "\<lparr>tileCoords = (1, 2), pixelCoords = (3, 4), colorId = 5, priority = 1\<rparr>"
  let ?q = "\<lparr>tileCoords = (1, 2), pixelCoords = (5, 6), colorId = 7, priority = 2\<rparr>"
  let ?r = "\<lparr>tileCoords = (1, 2), pixelCoords = (3, 4), colorId = 7, priority = 2\<rparr>"
  have absent: "\<forall>p \<in> set [?p]. \<forall>q \<in> set [?q].
          \<not> (tileCoords q = tileCoords p \<and> pixelCoords q = pixelCoords p)" by simp
  from removePainted_idempotent[of "[?p]" "[?q]"] absent
  have one: "removePainted [?p] [?q] = [?q]" by blast
  from removePainted_idempotent[of "[?p]" "[?r]"]
  have two: "removePainted [?p] (removePainted [?p] [?r]) = removePainted [?p] [?r]"
    and three: "\<forall>p \<in> set [?p]. \<forall>q \<in> set (removePainted [?p] [?r]).
       \<not> (tileCoords q = tileCoords p \<and> pixelCoords q = pixelCoords p)" by blast+
  have sub: "set (removePainted [?p] [?r]) \<subseteq> set [?r]" by (rule removePainted_subset)
  have gone: "removePainted [?p] [?r] = []"
  proof (rule ccontr)
    assume "removePainted [?p] [?r] \<noteq> []"
    then obtain q where q: "q \<in> set (removePainted [?p] [?r])"
      by (cases "removePainted [?p] [?r]") auto
    with sub have "q = ?r" by auto
    moreover from three q have "\<not> (tileCoords q = tileCoords ?p \<and> pixelCoords q = pixelCoords ?p)"
      by simp
    ultimately show False by simp
  qed
  from one two gone show ?thesis by blast
qed

section \<open>The available-colour set\<close>


lemma fold_upd_hit:
  "fold (\<lambda>i m. if P i then m(int (c + i) \<mapsto> f i) else m) [a ..< b] m (int (c + j))
     = (if a \<le> j \<and> j < b \<and> P j then Some (f j) else m (int (c + j)))"
proof (induction b)
  case 0
  then show ?case by simp
next
  case (Suc b)
  show ?case
  proof (cases "a \<le> b")
    case True
    then have "[a ..< Suc b] = [a ..< b] @ [b]" by simp
    then show ?thesis using Suc True by (cases "j = b") auto
  next
    case False
    then show ?thesis by auto
  qed
qed

lemma fold_upd_miss:
  "k < int c \<Longrightarrow> fold (\<lambda>i m. if P i then m(int (c + i) \<mapsto> f i) else m) [a ..< b] m k = m k"
proof (induction b)
  case 0
  then show ?case by simp
next
  case (Suc b)
  show ?case
  proof (cases "a \<le> b")
    case True
    then have "[a ..< Suc b] = [a ..< b] @ [b]" by simp
    then show ?thesis using Suc True by auto
  next
    case False
    then show ?thesis by auto
  qed
qed

lemma toBinaryString_bit:
  "j < length (toBinaryString m) \<Longrightarrow> (rev (toBinaryString m) ! j = CHR ''1'') = bit m j"
proof (induction m arbitrary: j rule: toBinaryString.induct)
  case (1 n)
  show ?case
  proof (cases "n < 2")
    case True
    then have s: "toBinaryString n = [if n = 0 then CHR ''0'' else CHR ''1'']"
      by (subst toBinaryString.simps) simp
    from "1.prems" s have "j = 0" by simp
    moreover from True have "n = 0 \<or> n = 1" by auto
    ultimately show ?thesis using s by (auto simp: bit_0)
  next
    case False
    then have s: "toBinaryString n = toBinaryString (n div 2) @ [if n mod 2 = 0 then CHR ''0'' else CHR ''1'']"
      by (subst toBinaryString.simps) simp
    show ?thesis
    proof (cases j)
      case 0
      then show ?thesis using s by (auto simp: bit_0 odd_iff_mod_2_eq_one)
    next
      case (Suc j')
      then have "j' < length (toBinaryString (n div 2))" using "1.prems" s by simp
      from "1.IH"[OF False this] show ?thesis using s Suc by (simp add: bit_Suc)
    qed
  qed
qed

lemma toBinaryString_bit_beyond:
  "length (toBinaryString m) \<le> j \<Longrightarrow> \<not> bit m j"
proof (induction m arbitrary: j rule: toBinaryString.induct)
  case (1 n)
  show ?case
  proof (cases "n < 2")
    case True
    then have s: "toBinaryString n = [if n = 0 then CHR ''0'' else CHR ''1'']"
      by (subst toBinaryString.simps) simp
    from "1.prems" s obtain j' where j: "j = Suc j'" by (cases j) auto
    from True have "n div 2 = 0" by simp
    then show ?thesis using j by (simp add: bit_Suc)
  next
    case False
    then have s: "toBinaryString n = toBinaryString (n div 2) @ [if n mod 2 = 0 then CHR ''0'' else CHR ''1'']"
      by (subst toBinaryString.simps) simp
    from "1.prems" s obtain j' where j: "j = Suc j'" "length (toBinaryString (n div 2)) \<le> j'"
      by (cases j) auto
    from "1.IH"[OF False j(2)] show ?thesis using j(1) by (simp add: bit_Suc)
  qed
qed




lemma loop_const:
  "fold (\<lambda>i m. m(int i \<mapsto> v)) [a ..< b] m k = (if int a \<le> k \<and> k < int b then Some v else m k)"
proof -
  have e: "(\<lambda>i m. m(int i \<mapsto> v)) = (\<lambda>i (m :: int \<rightharpoonup> 'a). if True then m(int (0 + i) \<mapsto> v) else m)"
    by simp
  show ?thesis
  proof (cases "k < 0")
    case True
    then show ?thesis
      unfolding e using fold_upd_miss[of k 0 "\<lambda>_. True" "\<lambda>_. v" a b m] by simp
  next
    case False
    then have k: "k = int (0 + nat k)" by simp
    show ?thesis
      unfolding e
      apply (subst k)
      apply (subst fold_upd_hit[of "\<lambda>_. True" 0 "\<lambda>_. v" a b m "nat k"])
      using False by auto
  qed
qed

lemma loop_marked:
  "fold (\<lambda>i m. if 32 + i < (66::nat) then m(int (32 + i) \<mapsto> g i) else m) [0 ..< n] m k
     = (if 32 \<le> k \<and> k < 66 \<and> nat k - 32 < n then Some (g (nat k - 32)) else m k)"
proof (cases "k < 32")
  case True
  then show ?thesis
    using fold_upd_miss[of k 32 "\<lambda>i. 32 + i < (66::nat)" g 0 n m] by simp
next
  case False
  then have k: "k = int (32 + (nat k - 32))" by simp
  show ?thesis
    apply (subst k)
    apply (subst fold_upd_hit[of "\<lambda>i. 32 + i < (66::nat)" 32 g 0 n m "nat k - 32"])
    using False by auto
qed

lemma availableColors_None_eq:
  "availableColorsFromBitmap None k
     = (if 32 \<le> k \<and> k < 66 then Some False else if 0 \<le> k \<and> k < 32 then Some True else None)"
proof -
  have "availableColorsFromBitmap None k
      = fold (\<lambda>i m. m(int i \<mapsto> False)) [32 ..< 66]
          (fold (\<lambda>i m. m(int i \<mapsto> True)) [0 ..< 32] Map.empty) k"
    by (simp only: availableColorsFromBitmap_def Let_def option.case)
  also have "\<dots> = (if 32 \<le> k \<and> k < 66 then Some False else if 0 \<le> k \<and> k < 32 then Some True else None)"
    unfolding loop_const by simp
  finally show ?thesis .
qed

lemma availableColors_Some_eq:
  "availableColorsFromBitmap (Some n) k
     = (if int (32 + length (toBinaryString (nat (n mod 2 ^ 32)))) \<le> k \<and> k < 66 then Some False
        else if 32 \<le> k \<and> k < 66 \<and> nat k - 32 < length (toBinaryString (nat (n mod 2 ^ 32)))
        then Some (rev (toBinaryString (nat (n mod 2 ^ 32))) ! (nat k - 32) = CHR ''1'')
        else if 0 \<le> k \<and> k < 32 then Some True else None)"
proof -
  let ?bb = "rev (toBinaryString (nat (n mod 2 ^ 32)))"
  have "availableColorsFromBitmap (Some n) k
      = fold (\<lambda>i m. m(int i \<mapsto> False)) [32 + length ?bb ..< 66]
          (fold (\<lambda>i m. if 32 + i < (66::nat) then m(int (32 + i) \<mapsto> (?bb ! i = CHR ''1'')) else m)
             [0 ..< length ?bb]
             (fold (\<lambda>i m. m(int i \<mapsto> True)) [0 ..< 32] Map.empty)) k"
    by (simp only: availableColorsFromBitmap_def Let_def option.case)
  also have "\<dots> = (if int (32 + length (toBinaryString (nat (n mod 2 ^ 32)))) \<le> k \<and> k < 66 then Some False
        else if 32 \<le> k \<and> k < 66 \<and> nat k - 32 < length (toBinaryString (nat (n mod 2 ^ 32)))
        then Some (rev (toBinaryString (nat (n mod 2 ^ 32))) ! (nat k - 32) = CHR ''1'')
        else if 0 \<le> k \<and> k < 32 then Some True else None)"
    unfolding loop_const loop_marked by simp
  finally show ?thesis .
qed

lemma availableColors_basic:
  "0 \<le> i \<Longrightarrow> i < 32 \<Longrightarrow> availableColorsFromBitmap b i = Some True"
  by (cases b) (simp_all add: availableColors_None_eq availableColors_Some_eq)

lemma availableColors_missing:
  "32 \<le> i \<Longrightarrow> i < 66 \<Longrightarrow> availableColorsFromBitmap None i = Some False"
  by (simp add: availableColors_None_eq)

lemma availableColors_outside:
  "i < 0 \<or> 66 \<le> i \<Longrightarrow> availableColorsFromBitmap b i = None"
  by (cases b) (auto simp: availableColors_None_eq availableColors_Some_eq)

lemma availableColors_extra:
  assumes "32 \<le> i" "i < 66"
  shows "availableColorsFromBitmap (Some n) i = Some (bit (nat (take_bit 32 n)) (nat (i - 32)))"
proof -
  have tb: "n mod 2 ^ 32 = take_bit 32 n" by (simp only: take_bit_eq_mod)
  let ?m = "nat (take_bit 32 n)"
  have j: "nat i - 32 = nat (i - 32)" using assms by simp
  show ?thesis
  proof (cases "nat (i - 32) < length (toBinaryString ?m)")
    case True
    then have "(rev (toBinaryString ?m) ! nat (i - 32) = CHR ''1'') = bit ?m (nat (i - 32))"
      by (rule toBinaryString_bit)
    moreover have "\<not> (int (32 + length (toBinaryString ?m)) \<le> i)" using True assms by linarith
    ultimately show ?thesis using assms True
      unfolding availableColors_Some_eq tb j by simp
  next
    case False
    then have "\<not> bit ?m (nat (i - 32))" using toBinaryString_bit_beyond by simp
    moreover have "int (32 + length (toBinaryString ?m)) \<le> i" using False assms by linarith
    ultimately show ?thesis using assms False
      unfolding availableColors_Some_eq tb j by simp
  qed
qed

text \<open>
  Claim C10. Whatever \<open>extraColorsBitmap\<close> is (an integer, or missing or not numeric),
  ids 0 to 31 are marked available. With the bitmap missing, ids 32 to 65 are all
  marked unavailable. With a bitmap \<open>n\<close>, id \<open>i\<close> between 32 and 65 is available exactly
  when bit \<open>i - 32\<close> of \<open>n\<close> is set and \<open>i < 64\<close> (the bitmap is read as 32 bits), and
  every id from 32 plus the length of the binary rendering onwards is marked
  unavailable. No other key is present.
\<close>

theorem availableColors_from_bitmap:
  "(\<forall>i. 0 \<le> i \<and> i < 32 \<longrightarrow> availableColorsFromBitmap b i = Some True)
   \<and> (\<forall>i. 32 \<le> i \<and> i < 66 \<longrightarrow> availableColorsFromBitmap None i = Some False)
   \<and> (\<forall>i. 32 \<le> i \<and> i < 66 \<longrightarrow>
         availableColorsFromBitmap (Some n) i = Some (i < 64 \<and> bit n (nat (i - 32))))
   \<and> (\<forall>i. 32 + int (length (toBinaryString (nat (n mod 2 ^ 32)))) \<le> i \<and> i < 66 \<longrightarrow>
         availableColorsFromBitmap (Some n) i = Some False)
   \<and> (\<forall>i. i < 0 \<or> 66 \<le> i \<longrightarrow> availableColorsFromBitmap b i = None)"
proof -
  have tb: "n mod 2 ^ 32 = take_bit 32 n" by (simp only: take_bit_eq_mod)
  have bits: "\<And>j. bit (nat (take_bit 32 n)) j = (j < 32 \<and> bit n j)"
    by (simp add: bit_nat_iff bit_take_bit_iff)
  have c: "\<forall>i. 32 \<le> i \<and> i < 66 \<longrightarrow>
         availableColorsFromBitmap (Some n) i = Some (i < 64 \<and> bit n (nat (i - 32)))"
  proof (intro allI impI)
    fix i :: int assume i: "32 \<le> i \<and> i < 66"
    then have e: "(nat (i - 32) < 32) = (i < 64)" by auto
    have "availableColorsFromBitmap (Some n) i = Some (nat (i - 32) < 32 \<and> bit n (nat (i - 32)))"
      using availableColors_extra[of i n] i unfolding bits by blast
    then show "availableColorsFromBitmap (Some n) i = Some (i < 64 \<and> bit n (nat (i - 32)))"
      unfolding e .
  qed
  have d: "\<forall>i. 32 + int (length (toBinaryString (nat (n mod 2 ^ 32)))) \<le> i \<and> i < 66 \<longrightarrow>
         availableColorsFromBitmap (Some n) i = Some False"
  proof (intro allI impI)
    fix i :: int assume i: "32 + int (length (toBinaryString (nat (n mod 2 ^ 32)))) \<le> i \<and> i < 66"
    then have "length (toBinaryString (nat (take_bit 32 n))) \<le> nat (i - 32)" unfolding tb by linarith
    then have "\<not> bit (nat (take_bit 32 n)) (nat (i - 32))" by (rule toBinaryString_bit_beyond)
    moreover have "32 \<le> i" using i by linarith
    ultimately show "availableColorsFromBitmap (Some n) i = Some False"
      using availableColors_extra[of i n] i by simp
  qed
  show ?thesis
    using availableColors_basic availableColors_missing availableColors_outside c d by blast
qed

text \<open>
  Witness for C10: the bitmap 5 (binary 101), a missing bitmap, and the bitmap -1
  (all 32 bits set).
\<close>

theorem availableColors_from_bitmap_witness:
  "availableColorsFromBitmap (Some 5) 0 = Some True
   \<and> availableColorsFromBitmap None 0 = Some True
   \<and> availableColorsFromBitmap None 40 = Some False
   \<and> availableColorsFromBitmap (Some 5) 32 = Some True
   \<and> availableColorsFromBitmap (Some 5) 33 = Some False
   \<and> availableColorsFromBitmap (Some 5) 34 = Some True
   \<and> availableColorsFromBitmap (Some 5) 35 = Some False
   \<and> availableColorsFromBitmap (Some (- 1)) 65 = Some False
   \<and> availableColorsFromBitmap (Some 5) 66 = None"
proof -
  have l: "length (toBinaryString (nat (5 mod 2 ^ 32))) = 3"
    by (simp add: toBinaryString.simps)
  have b0: "bit (5 :: int) (nat (32 - 32))" by (simp add: bit_0)
  have b1: "\<not> bit (5 :: int) (nat (33 - 32))" by (simp add: bit_iff_odd)
  have b2: "bit (5 :: int) (nat (34 - 32))" by (simp add: bit_iff_odd)
  have r0: "(0::int) \<le> 0 \<and> (0::int) < 32" and r40: "(32::int) \<le> 40 \<and> (40::int) < 66"
    and r66: "(66::int) < 0 \<or> (66::int) \<le> 66" and r65: "(32::int) \<le> 65 \<and> (65::int) < 66" by simp_all
  from availableColors_from_bitmap[of "Some 5" 5]
  have a5: "\<forall>i. 0 \<le> i \<and> i < 32 \<longrightarrow> availableColorsFromBitmap (Some 5) i = Some True"
    and e: "\<forall>i. 32 \<le> i \<and> i < 66 \<longrightarrow>
         availableColorsFromBitmap (Some 5) i = Some (i < 64 \<and> bit (5 :: int) (nat (i - 32)))"
    and f: "\<forall>i. 32 + int (length (toBinaryString (nat (5 mod 2 ^ 32)))) \<le> i \<and> i < 66 \<longrightarrow>
         availableColorsFromBitmap (Some 5) i = Some False"
    and o5: "\<forall>i. i < 0 \<or> 66 \<le> i \<longrightarrow> availableColorsFromBitmap (Some 5) i = None" by blast+
  from availableColors_from_bitmap[of None "- 1"]
  have aN: "\<forall>i. 0 \<le> i \<and> i < 32 \<longrightarrow> availableColorsFromBitmap None i = Some True"
    and mN: "\<forall>i. 32 \<le> i \<and> i < 66 \<longrightarrow> availableColorsFromBitmap None i = Some False"
    and eM: "\<forall>i. 32 \<le> i \<and> i < 66 \<longrightarrow>
         availableColorsFromBitmap (Some (- 1)) i = Some (i < 64 \<and> bit (- 1 :: int) (nat (i - 32)))" by blast+
  from a5 r0 have t: "availableColorsFromBitmap (Some 5) 0 = Some True" by blast
  from o5 r66 have o: "availableColorsFromBitmap (Some 5) 66 = None" by blast
  from aN r0 have n0: "availableColorsFromBitmap None 0 = Some True" by blast
  from mN r40 have n40: "availableColorsFromBitmap None 40 = Some False" by blast
  from eM r65 have m65: "availableColorsFromBitmap (Some (- 1)) 65 = Some False" by simp
  from e b0 have c32: "availableColorsFromBitmap (Some 5) 32 = Some True" by simp
  from e b1 have c33: "availableColorsFromBitmap (Some 5) 33 = Some False" by simp
  from e b2 have c34: "availableColorsFromBitmap (Some 5) 34 = Some True" by simp
  from f l have c35: "availableColorsFromBitmap (Some 5) 35 = Some False" by simp
  from t n0 n40 c32 c33 c34 c35 m65 o show ?thesis by blast
qed

section \<open>Weighted selection in quick paint\<close>

subsection \<open>Weights, ranking and keys\<close>

lemma weight_linear:
  assumes "1 < L"
  shows "weight L i = 3 - 2 * real i / (real L - 1)"
  using assms by (simp add: weight_def)

lemma weight_first: "1 < L \<Longrightarrow> weight L 0 = 3"
  by (simp add: weight_def)

lemma weight_last: "0 < L \<Longrightarrow> weight L (L - 1) = 1"
proof (cases "1 < L")
  case True
  define d where "d = real L - 1"
  have r: "real (L - 1) = d" and nz: "d \<noteq> 0" using True by (simp_all add: d_def)
  have "(- 2 / d) * d = - 2" using nz by simp
  then have "(- 2 / d) * d + 3 = 1" by simp
  then show ?thesis using True unfolding weight_def r d_def[symmetric] by simp
next
  case False
  then show ?thesis by (simp add: weight_def)
qed

lemma weight_decreasing:
  assumes "1 < L" "i < j"
  shows "weight L j < weight L i"
proof -
  have d: "0 < real L - 1" using assms(1) by simp
  have "real i < real j" using assms(2) by simp
  then have "2 * real i / (real L - 1) < 2 * real j / (real L - 1)"
    using d by (simp add: divide_strict_right_mono)
  then show ?thesis unfolding weight_linear[OF assms(1)] by simp
qed

lemma weight_ge_one:
  assumes "i < L"
  shows "1 \<le> weight L i"
proof (cases "1 < L")
  case True
  have d: "0 < real L - 1" using True by simp
  define e where "e = real L - 1"
  have e: "0 < e" using d by (simp add: e_def)
  have "real i \<le> e" using assms by (simp add: e_def)
  then have "2 * real i \<le> 2 * e" by simp
  then have "2 * real i / e \<le> 2" using e by (simp add: pos_divide_le_eq)
  then show ?thesis unfolding weight_linear[OF True] e_def by simp
next
  case False
  then show ?thesis by (simp add: weight_def)
qed

lemma length_sortByPriority: "length (sortByPriority q) = length q"
  by (simp add: sortByPriority_def)

lemma mset_sortByPriority: "mset (sortByPriority q) = mset q"
  by (simp add: sortByPriority_def)

lemma sortByPriority_descending:
  "sorted_wrt (\<lambda>a b. priority b \<le> priority a) (sortByPriority q)"
proof -
  have "sorted (map (\<lambda>p. - priority p) (sortByPriority q))"
    unfolding sortByPriority_def by (rule sorted_sort_key)
  then show ?thesis by (simp add: sorted_map)
qed

lemma insort_key_map:
  "insort_key f (g x) (map g xs) = map g (insort_key (\<lambda>a. f (g a)) x xs)"
  by (induction xs) simp_all

lemma sort_key_map:
  "sort_key f (map g xs) = map g (sort_key (\<lambda>a. f (g a)) xs)"
  by (induction xs) (simp_all add: insort_key_map)

text \<open>The ranks in the order in which the sort by key leaves them.\<close>

lemma selectedItems_ranks:
  "selectedItems pow random n sq
     = map (\<lambda>i. (sq ! i, pow (random i) (1 / weight (length sq) i)))
         (take n (sort_key (\<lambda>i. - pow (random i) (1 / weight (length sq) i)) [0 ..< length sq]))"
  unfolding selectedItems_def weightedItems_def sort_key_map take_map
  by simp

lemma ranks_largest:
  fixes key :: "nat \<Rightarrow> real" and L :: nat
  defines "s \<equiv> sort_key (\<lambda>i. - key i) [0 ..< L]"
  shows "length (take n s) = min n L"
    and "distinct (take n s)"
    and "set (take n s) \<subseteq> {..< L}"
    and "\<forall>i \<in> set (take n s). \<forall>j < L. j \<notin> set (take n s) \<longrightarrow> key j \<le> key i"
    and "sorted_wrt (\<lambda>i j. key j \<le> key i) (take n s)"
proof -
  have st: "set s = {..< L}" unfolding s_def by auto
  have ds: "distinct s" unfolding s_def by simp
  show "length (take n s) = min n L" unfolding s_def by (simp add: min.commute)
  show "distinct (take n s)" using ds by simp
  show "set (take n s) \<subseteq> {..< L}" using set_take_subset[of n s] st by blast
  have so: "sorted (map (\<lambda>i. - key i) s)" unfolding s_def by (rule sorted_sort_key)
  then have "sorted (map (\<lambda>i. - key i) (take n s) @ map (\<lambda>i. - key i) (drop n s))"
    by (simp only: map_append[symmetric] append_take_drop_id)
  then have o: "\<forall>a \<in> set (take n s). \<forall>b \<in> set (drop n s). key b \<le> key a"
    by (auto simp: sorted_append)
  have u: "set s = set (take n s) \<union> set (drop n s)"
    by (metis append_take_drop_id set_append)
  show "\<forall>i \<in> set (take n s). \<forall>j < L. j \<notin> set (take n s) \<longrightarrow> key j \<le> key i"
  proof (intro ballI allI impI)
    fix i j
    assume i: "i \<in> set (take n s)" and j: "j < L" "j \<notin> set (take n s)"
    from j st u have "j \<in> set (drop n s)" by auto
    with o i show "key j \<le> key i" by blast
  qed
  from so have "sorted_wrt (\<lambda>i j. key j \<le> key i) s" by (simp add: sorted_map)
  then show "sorted_wrt (\<lambda>i j. key j \<le> key i) (take n s)" by (rule sorted_wrt_take)
qed

lemma selectedItems_Nil: "selectedItems pow random n [] = []"
  by (simp add: selectedItems_def weightedItems_def)

lemma selectPixels_eq:
  assumes "0 < paintCount"
  shows "selectPixels pow random paintCount filteredQueue
           = map fst (selectedItems pow random (min paintCount (length filteredQueue))
                        (sortByPriority filteredQueue))"
proof (cases "filteredQueue = []")
  case True
  then show ?thesis by (simp add: selectPixels_def selectedItems_def weightedItems_def sortByPriority_def)
next
  case False
  then show ?thesis
    using assms by (simp add: selectPixels_def Let_def length_sortByPriority selectedItems_Nil)
qed

lemma executeQuickPaint_painted:
  assumes "hasTemplatePixels" "0 < currentCharges - reservedCharges"
  shows "painted (executeQuickPaint tm hasTemplatePixels fullPixelQueue currentCharges maxCharges
                    reservedCharges availableColors pow random)
           = map fst (selectedItems pow random
               (min (nat (currentCharges - reservedCharges))
                  (length (filter (\<lambda>pixel. colorId pixel = 0 \<or> availableColors (colorId pixel) = Some True)
                             fullPixelQueue)))
               (sortByPriority (filter (\<lambda>pixel. colorId pixel = 0 \<or> availableColors (colorId pixel) = Some True)
                             fullPixelQueue)))"
proof -
  let ?f = "filter (\<lambda>pixel. colorId pixel = 0 \<or> availableColors (colorId pixel) = Some True) fullPixelQueue"
  have m: "max 0 (currentCharges - reservedCharges) = currentCharges - reservedCharges"
    using assms(2) by simp
  have pc: "0 < nat (currentCharges - reservedCharges)" using assms(2) by simp
  show ?thesis
  proof (cases "?f = []")
    case True
    have "painted (executeQuickPaint tm hasTemplatePixels fullPixelQueue currentCharges maxCharges
                    reservedCharges availableColors pow random) = []"
      using True assms(1) by (simp add: executeQuickPaint_def Let_def)
    moreover have "sortByPriority ?f = []" using True by (simp add: sortByPriority_def)
    ultimately show ?thesis by (simp add: selectedItems_Nil)
  next
    case False
    then have "fullPixelQueue \<noteq> []" by auto
    then have "painted (executeQuickPaint tm hasTemplatePixels fullPixelQueue currentCharges maxCharges
                    reservedCharges availableColors pow random)
           = selectPixels pow random (nat (currentCharges - reservedCharges)) ?f"
      using False assms m by (simp add: executeQuickPaint_def Let_def)
    then show ?thesis unfolding selectPixels_eq[OF pc] .
  qed
qed

subsection \<open>Two random sources\<close>

lemma foldr_insort_front:
  fixes f :: "'a \<Rightarrow> real"
  assumes "\<forall>y \<in> set xs. f x < f y"
  shows "foldr (insort_key f) xs [x] = x # foldr (insort_key f) xs []"
  using assms by (induction xs) auto

lemma sort_key_snoc_min:
  fixes f :: "'a \<Rightarrow> real"
  assumes "\<forall>y \<in> set xs. f x < f y" "sorted (map f xs)"
  shows "sort_key f (xs @ [x]) = x # xs"
proof -
  have "sort_key f (xs @ [x]) = foldr (insort_key f) xs [x]" by (simp add: sort_key_def)
  also have "\<dots> = x # foldr (insort_key f) xs []" using assms(1) by (rule foldr_insort_front)
  also have "foldr (insort_key f) xs [] = sort_key f xs" by (simp add: sort_key_def)
  also have "sort_key f xs = xs" using assms(2) by (rule sort_key_id_if_sorted)
  finally show ?thesis .
qed

lemma sorted_zero_keys:
  "sorted (map (\<lambda>item. - snd item) (map (\<lambda>p. (p, 0::real)) (ys :: candidate list)))"
  by (induction ys) auto

text \<open>A random source that favours the last rank: every draw is 0 but the last, which is 1/2.\<close>

lemma weightedItems_last_wins:
  assumes "1 < length sq" "\<forall>e > 0. pow 0 e = 0"
  shows "weightedItems pow (\<lambda>i. if Suc i = length sq then 1 / 2 else 0) sq
           = map (\<lambda>p. (p, 0)) (butlast sq) @ [(last sq, pow (1 / 2) 1)]"
proof -
  let ?L = "length sq"
  let ?r = "(\<lambda>i. if Suc i = ?L then 1 / 2 else 0) :: nat \<Rightarrow> real"
  have L: "[0 ..< ?L] = [0 ..< ?L - 1] @ [?L - 1]"
    using assms(1) by (metis Suc_diff_1 less_trans upt_Suc_append zero_le zero_less_one)
  have "0 < ?L" using assms(1) by linarith
  then have w: "weight ?L (?L - 1) = 1" by (rule weight_last)
  have a: "map (\<lambda>i. (sq ! i, pow (?r i) (1 / weight ?L i))) [0 ..< ?L - 1]
         = map (\<lambda>i. (sq ! i, 0)) [0 ..< ?L - 1]"
  proof (rule map_cong[OF refl])
    fix i assume "i \<in> set [0 ..< ?L - 1]"
    then have i: "i < ?L - 1" by simp
    then have "i < ?L" by simp
    then have "1 \<le> weight ?L i" by (rule weight_ge_one)
    then have "0 < 1 / weight ?L i" by simp
    then have "pow 0 (1 / weight ?L i) = 0" using assms(2) by blast
    moreover have "?r i = 0" using i by auto
    ultimately show "(sq ! i, pow (?r i) (1 / weight ?L i)) = (sq ! i, 0)" by simp
  qed
  have b: "map (\<lambda>i. (sq ! i, 0::real)) [0 ..< ?L - 1] = map (\<lambda>p. (p, 0)) (butlast sq)"
  proof -
    have "butlast sq = map (\<lambda>i. sq ! i) [0 ..< ?L - 1]"
      by (metis butlast_conv_take map_nth take_map take_upt add_0 diff_le_self)
    then show ?thesis by (simp add: comp_def)
  qed
  have ne: "sq \<noteq> []" and sl: "Suc (?L - 1) = ?L" using assms(1) by auto
  have c: "(sq ! (?L - 1), pow (?r (?L - 1)) (1 / weight ?L (?L - 1))) = (last sq, pow (1 / 2) 1)"
    unfolding w using ne sl by (simp add: last_conv_nth)
  have "weightedItems pow ?r sq
      = map (\<lambda>i. (sq ! i, pow (?r i) (1 / weight ?L i))) [0 ..< ?L - 1]
        @ [(sq ! (?L - 1), pow (?r (?L - 1)) (1 / weight ?L (?L - 1)))]"
    unfolding weightedItems_def by (subst L) simp
  then show ?thesis unfolding a b c .
qed

lemma selectedItems_last_wins:
  assumes "1 < length sq" "0 < n" "n \<le> length sq"
    and "\<forall>e > 0. pow 0 e = 0" "0 < pow (1 / 2) 1"
  shows "map fst (selectedItems pow (\<lambda>i. if Suc i = length sq then 1 / 2 else 0) n sq)
           = last sq # take (n - 1) sq"
proof -
  let ?xs = "map (\<lambda>p. (p, 0::real)) (butlast sq)"
  let ?x = "(last sq, pow (1 / 2) 1)"
  have s: "sorted (map (\<lambda>item. - snd item) ?xs)" by (rule sorted_zero_keys)
  have m: "\<forall>y \<in> set ?xs. - snd ?x < - snd y" using assms(5) by auto
  have "sort_key (\<lambda>item. - snd item) (?xs @ [?x]) = ?x # ?xs"
    using m s by (rule sort_key_snoc_min)
  then have "selectedItems pow (\<lambda>i. if Suc i = length sq then 1 / 2 else 0) n sq = take n (?x # ?xs)"
    unfolding selectedItems_def weightedItems_last_wins[of sq pow, OF assms(1) assms(4)] by simp
  moreover obtain k where k: "n = Suc k" using assms(2) by (cases n) auto
  ultimately have "map fst (selectedItems pow (\<lambda>i. if Suc i = length sq then 1 / 2 else 0) n sq)
          = last sq # take k (butlast sq)"
    by (simp add: take_map comp_def)
  moreover have "take k (butlast sq) = take k sq"
    using assms(3) k by (simp add: take_butlast)
  ultimately show ?thesis using k by simp
qed

text \<open>A random source under which the selection is the top of the ranking: every draw is 0.\<close>

lemma selectedItems_all_zero:
  assumes "\<forall>e > 0. pow 0 e = 0"
  shows "map fst (selectedItems pow (\<lambda>i. 0) n sq) = take n sq"
proof -
  have "map (\<lambda>i. (sq ! i, pow 0 (1 / weight (length sq) i))) [0 ..< length sq]
      = map (\<lambda>i. (sq ! i, 0)) [0 ..< length sq]"
  proof (rule map_cong[OF refl])
    fix i assume "i \<in> set [0 ..< length sq]"
    then have "i < length sq" by simp
    then have "1 \<le> weight (length sq) i" by (rule weight_ge_one)
    then have "0 < 1 / weight (length sq) i" by simp
    then have "pow 0 (1 / weight (length sq) i) = 0" using assms by blast
    then show "(sq ! i, pow 0 (1 / weight (length sq) i)) = (sq ! i, 0)" by simp
  qed
  also have "\<dots> = map (\<lambda>p. (p, 0)) (map (\<lambda>i. sq ! i) [0 ..< length sq])" by (simp add: comp_def)
  also have "\<dots> = map (\<lambda>p. (p, 0)) sq" by (simp only: map_nth)
  finally have w: "weightedItems pow (\<lambda>i. 0) sq = map (\<lambda>p. (p, 0)) sq"
    unfolding weightedItems_def .
  have "sort_key (\<lambda>item. - snd item) (map (\<lambda>p. (p, 0::real)) sq) = map (\<lambda>p. (p, 0)) sq"
    using sorted_zero_keys by (rule sort_key_id_if_sorted)
  then show ?thesis unfolding selectedItems_def w by (simp add: take_map comp_def)
qed

lemma last_notin_take:
  assumes "distinct sq" "n < length sq"
  shows "last sq \<notin> set (take n sq)"
proof
  assume "last sq \<in> set (take n sq)"
  then obtain k where k: "k < length (take n sq)" "take n sq ! k = last sq"
    by (auto simp: in_set_conv_nth)
  then have kn: "k < n" and e: "sq ! k = last sq" by simp_all
  have ne: "sq \<noteq> []" using assms(2) by auto
  then have "last sq = sq ! (length sq - 1)" by (rule last_conv_nth)
  with e have "sq ! k = sq ! (length sq - 1)" by simp
  moreover have "k < length sq" "length sq - 1 < length sq" using kn assms(2) by simp_all
  ultimately have "k = length sq - 1" using assms(1) by (simp add: nth_eq_iff_index_eq)
  with kn assms(2) show False by simp
qed

subsection \<open>The claim\<close>

text \<open>
  Claim C1. When templates are loaded and the budget (current charges minus reserved
  charges) is positive, \<open>executeQuickPaint\<close> ranks the availability-filtered
  candidates by descending priority (\<open>sq\<close>, a rearrangement of the filtered list of
  length \<open>L\<close>) and paints exactly \<open>n = min(budget, L)\<close> of them. The painted
  candidates are those at \<open>n\<close> pairwise different ranks (a selection without
  replacement), listed by descending key, and no rank left out has a larger key than
  a rank taken. The key of rank \<open>i\<close> is \<open>pow u (1 / weight)\<close>, where \<open>u = random i\<close> is
  the draw made for that rank and \<open>pow\<close> is \<open>Math.pow\<close>; the weight is 3 at rank 0,
  falls linearly and strictly with the rank, and is 1 at the last rank (for a single
  candidate rank 0 is the last rank, with weight 1). The selection is not a fixed
  top-\<open>n\<close> slice: whenever the budget is smaller than a list of pairwise different
  candidates, some draws in [0, 1) paint a set of candidates other than the first
  \<open>n\<close> of the ranking, and other draws paint exactly the first \<open>n\<close>; this part uses
  of \<open>pow\<close> only that 0 to a positive power is 0 and that 1/2 to the power 1 is
  positive. That the draws are uniform and independent is a property of
  \<open>Math.random\<close>; the statement holds for every sequence of draws.
\<close>

theorem executeQuickPaint_weighted_selection:
  assumes "hasTemplatePixels"
    and "filteredQueue = filter (\<lambda>pixel. colorId pixel = 0 \<or> availableColors (colorId pixel) = Some True)
                           fullPixelQueue"
    and "0 < currentCharges - reservedCharges"
    and "sq = sortByPriority filteredQueue"
    and "L = length filteredQueue"
    and "n = min (nat (currentCharges - reservedCharges)) L"
    and "out = (\<lambda>rnd. painted (executeQuickPaint tm hasTemplatePixels fullPixelQueue currentCharges
                                   maxCharges reservedCharges availableColors pow rnd))"
  shows "mset sq = mset filteredQueue \<and> sorted_wrt (\<lambda>a b. priority b \<le> priority a) sq
     \<and> length (out random) = n
     \<and> (\<exists>ranks. length ranks = n \<and> distinct ranks \<and> set ranks \<subseteq> {..< L}
           \<and> out random = map (\<lambda>i. sq ! i) ranks
           \<and> sorted_wrt (\<lambda>i j. pow (random j) (1 / weight L j) \<le> pow (random i) (1 / weight L i)) ranks
           \<and> (\<forall>i \<in> set ranks. \<forall>j < L. j \<notin> set ranks
                  \<longrightarrow> pow (random j) (1 / weight L j) \<le> pow (random i) (1 / weight L i)))
     \<and> (0 < L \<longrightarrow> weight L (L - 1) = 1)
     \<and> (1 < L \<longrightarrow> weight L 0 = 3
           \<and> (\<forall>i. weight L i = 3 - 2 * real i / (real L - 1))
           \<and> (\<forall>i j. i < j \<longrightarrow> weight L j < weight L i))
     \<and> (n < L \<and> distinct sq \<and> (\<forall>e > 0. pow 0 e = 0) \<and> 0 < pow (1 / 2) 1 \<longrightarrow>
           (\<exists>random'. (\<forall>i. 0 \<le> random' i \<and> random' i < 1) \<and> set (out random') \<noteq> set (take n sq))
         \<and> (\<exists>random''. (\<forall>i. 0 \<le> random'' i \<and> random'' i < 1) \<and> out random'' = take n sq))"
proof -
  define key where "key = (\<lambda>i. pow (random i) (1 / weight L i))"
  define ranks where "ranks = take n (sort_key (\<lambda>i. - key i) [0 ..< L])"
  have Ls: "length sq = L" unfolding assms(4,5) by (rule length_sortByPriority)
  have nL: "n \<le> L" and n0: "L = 0 \<or> 0 < n" using assms(3,6) by auto
  have p: "\<And>r. out r = map fst (selectedItems pow r n sq)"
    unfolding assms(7) executeQuickPaint_painted[OF assms(1,3)] assms(2,4,5,6) ..
  have rank: "mset sq = mset filteredQueue \<and> sorted_wrt (\<lambda>a b. priority b \<le> priority a) sq"
    unfolding assms(4) using mset_sortByPriority sortByPriority_descending by blast
  have o: "out random = map (\<lambda>i. sq ! i) ranks"
    unfolding p selectedItems_ranks Ls ranks_def key_def by (simp add: comp_def)
  have len: "length ranks = n" unfolding ranks_def using ranks_largest(1)[where n = n and key = key and L = L] nL by simp
  have lo: "length (out random) = n" unfolding o using len by simp
  have sel: "\<exists>ranks. length ranks = n \<and> distinct ranks \<and> set ranks \<subseteq> {..< L}
           \<and> out random = map (\<lambda>i. sq ! i) ranks
           \<and> sorted_wrt (\<lambda>i j. pow (random j) (1 / weight L j) \<le> pow (random i) (1 / weight L i)) ranks
           \<and> (\<forall>i \<in> set ranks. \<forall>j < L. j \<notin> set ranks
                  \<longrightarrow> pow (random j) (1 / weight L j) \<le> pow (random i) (1 / weight L i))"
    using len o ranks_largest(2,3,4,5)[where n = n and key = key and L = L]
    unfolding ranks_def[symmetric] unfolding key_def by blast
  have wl: "0 < L \<longrightarrow> weight L (L - 1) = 1" using weight_last by blast
  have w: "1 < L \<longrightarrow> weight L 0 = 3
           \<and> (\<forall>i. weight L i = 3 - 2 * real i / (real L - 1))
           \<and> (\<forall>i j. i < j \<longrightarrow> weight L j < weight L i)"
    using weight_first weight_linear weight_decreasing by blast
  have nd: "n < L \<and> distinct sq \<and> (\<forall>e > 0. pow 0 e = 0) \<and> 0 < pow (1 / 2) 1 \<longrightarrow>
           (\<exists>random'. (\<forall>i. 0 \<le> random' i \<and> random' i < 1) \<and> set (out random') \<noteq> set (take n sq))
         \<and> (\<exists>random''. (\<forall>i. 0 \<le> random'' i \<and> random'' i < 1) \<and> out random'' = take n sq)"
  proof
    assume h: "n < L \<and> distinct sq \<and> (\<forall>e > 0. pow 0 e = 0) \<and> 0 < pow (1 / 2) 1"
    then have npos: "0 < n" using n0 by auto
    then have L1: "1 < length sq" using h Ls by simp
    have nls: "n \<le> length sq" "n < length sq" using h Ls by simp_all
    let ?r = "(\<lambda>i. if Suc i = length sq then 1 / 2 else 0) :: nat \<Rightarrow> real"
    have a: "\<forall>i. 0 \<le> ?r i \<and> ?r i < 1" by simp
    have "out ?r = last sq # take (n - 1) sq"
      unfolding p using L1 npos nls(1) h by (intro selectedItems_last_wins) simp_all
    then have "last sq \<in> set (out ?r)" by simp
    moreover have "last sq \<notin> set (take n sq)" using h nls(2) by (intro last_notin_take) simp_all
    ultimately have b: "set (out ?r) \<noteq> set (take n sq)" by blast
    have e1: "\<exists>random'. (\<forall>i. 0 \<le> random' i \<and> random' i < 1) \<and> set (out random') \<noteq> set (take n sq)"
      by (rule exI[of _ ?r], rule conjI[OF a b])
    let ?z = "(\<lambda>i. 0) :: nat \<Rightarrow> real"
    have c: "\<forall>i. 0 \<le> ?z i \<and> ?z i < 1" by simp
    have d: "out ?z = take n sq" unfolding p using h by (intro selectedItems_all_zero) simp
    have e2: "\<exists>random''. (\<forall>i. 0 \<le> random'' i \<and> random'' i < 1) \<and> out random'' = take n sq"
      by (rule exI[of _ ?z], rule conjI[OF c d])
    from e1 e2 show "(\<exists>random'. (\<forall>i. 0 \<le> random' i \<and> random' i < 1) \<and> set (out random') \<noteq> set (take n sq))
         \<and> (\<exists>random''. (\<forall>i. 0 \<le> random'' i \<and> random'' i < 1) \<and> out random'' = take n sq)" ..
  qed
  from rank lo sel wl w nd show ?thesis by (intro conjI) blast+
qed

text \<open>
  Witness for C1: two available candidates, queued worst first, a budget of one, the
  exact power, and the draws 0 for rank 0 and 1/2 for rank 1. One candidate is
  painted, the weights are 3 and 1, and the lower-ranked candidate is the one painted,
  its key 1/2 being the larger.
\<close>

theorem executeQuickPaint_weighted_selection_witness:
  "length (painted (executeQuickPaint (newTemplateManager []) True
              [\<lparr>tileCoords = (0, 0), pixelCoords = (2, 2), colorId = 1, priority = 1\<rparr>,
               \<lparr>tileCoords = (0, 0), pixelCoords = (1, 1), colorId = 1, priority = 2\<rparr>]
              1 10 0 (\<lambda>k. Some True) (powr) (\<lambda>i. if Suc i = 2 then 1 / 2 else 0))) = 1
   \<and> sortByPriority
              [\<lparr>tileCoords = (0, 0), pixelCoords = (2, 2), colorId = 1, priority = 1\<rparr>,
               \<lparr>tileCoords = (0, 0), pixelCoords = (1, 1), colorId = 1, priority = 2\<rparr>]
     = [\<lparr>tileCoords = (0, 0), pixelCoords = (1, 1), colorId = 1, priority = 2\<rparr>,
        \<lparr>tileCoords = (0, 0), pixelCoords = (2, 2), colorId = 1, priority = 1\<rparr>]
   \<and> weight 2 0 = 3 \<and> weight 2 1 = 1
   \<and> painted (executeQuickPaint (newTemplateManager []) True
              [\<lparr>tileCoords = (0, 0), pixelCoords = (2, 2), colorId = 1, priority = 1\<rparr>,
               \<lparr>tileCoords = (0, 0), pixelCoords = (1, 1), colorId = 1, priority = 2\<rparr>]
              1 10 0 (\<lambda>k. Some True) (powr) (\<lambda>i. if Suc i = 2 then 1 / 2 else 0))
     = [\<lparr>tileCoords = (0, 0), pixelCoords = (2, 2), colorId = 1, priority = 1\<rparr>]"
proof -
  let ?a = "\<lparr>tileCoords = (0, 0), pixelCoords = (1, 1), colorId = 1, priority = 2\<rparr>"
  let ?b = "\<lparr>tileCoords = (0, 0), pixelCoords = (2, 2), colorId = 1, priority = 1\<rparr>"
  let ?av = "(\<lambda>k. Some True) :: int \<rightharpoonup> bool"
  let ?r = "(\<lambda>i. if Suc i = 2 then 1 / 2 else 0) :: nat \<Rightarrow> real"
  let ?out = "\<lambda>rnd. painted (executeQuickPaint (newTemplateManager []) True [?b, ?a] 1 10 0 ?av (powr) rnd)"
  have f: "[?b, ?a] = filter (\<lambda>pixel. colorId pixel = 0 \<or> ?av (colorId pixel) = Some True) [?b, ?a]"
    by simp
  have c: "(0::int) < 1 - 0" by simp
  have sq: "[?a, ?b] = sortByPriority [?b, ?a]" by (simp add: sortByPriority_def)
  have L: "(2::nat) = length [?b, ?a]" by simp
  have n: "(1::nat) = min (nat (1 - 0)) 2" by simp
  note t = executeQuickPaint_weighted_selection[OF TrueI f c sq L n refl,
             of "newTemplateManager []" 10 "(powr)" ?r]
  from t have len: "length (?out ?r) = 1" by blast
  from t have w: "weight 2 0 = 3 \<and> weight 2 1 = 1" by simp
  from t obtain ranks where r: "length ranks = 1" "set ranks \<subseteq> {..< 2}"
      "?out ?r = map (\<lambda>i. [?a, ?b] ! i) ranks"
      "\<forall>i \<in> set ranks. \<forall>j < 2. j \<notin> set ranks
          \<longrightarrow> ?r j powr (1 / weight 2 j) \<le> ?r i powr (1 / weight 2 i)"
    by blast
  from r(1) obtain k where k: "ranks = [k]" by (cases ranks) auto
  have "k = 1"
  proof (rule ccontr)
    assume "k \<noteq> 1"
    with r(2) k have k0: "k = 0" by auto
    have "(0::nat) \<in> set ranks" "(1::nat) < 2" "(1::nat) \<notin> set ranks" using k k0 by simp_all
    with r(4) have "?r 1 powr (1 / weight 2 1) \<le> ?r 0 powr (1 / weight 2 0)" by blast
    then show False using w by simp
  qed
  with r(3) k have "?out ?r = [?b]" by simp
  with len sq w show ?thesis by simp
qed

end
